(* ===== verification/Jack_Prelude.thy ===== *)
theory Jack_Prelude
  imports Main
begin

text \<open>
  Shared vocabulary of the development: the Python exceptions the analyser can raise, the
  Python string builtins it calls (\<open>str.strip\<close>, \<open>str.split\<close>, \<open>str.replace\<close>,
  \<open>str.lower\<close>, the character classes behind them), the guarded
  \<open>deque.appendleft\<close> idiom of \<open>JackTokenizer.advance\<close>, and the generic lemmas
  on these that the component theories share.  Python strings are modelled as
  \<open>string\<close> (\<open>char list\<close>): the model covers inputs whose code points are in
  Latin-1 (0 to 255), the range of Isabelle's \<open>char\<close>.
\<close>

named_theorems py_str_simps "evaluation rules for the modelled Python string builtins"

section \<open>Python exceptions\<close>

text \<open>
  Each exception the source can raise is a constructor.  \<open>Empty_queue\<close> and
  \<open>Unterminated_string\<close> are both \<open>IndexError('pop from an empty deque')\<close> in Python;
  they are kept apart because they come from different calls of \<open>popleft\<close>
  (\<open>advance\<close> itself, and the string-constant loop).
\<close>

datatype py_error =
    Empty_queue              \<comment> \<open>\<open>self.jack.popleft()\<close> at the start of \<open>advance\<close>\<close>
  | Unterminated_string      \<comment> \<open>\<open>self.jack.popleft()\<close> in the string-constant loop\<close>
  | String_index             \<comment> \<open>\<open>next_token[0]\<close> on an empty fragment\<close>
  | Key_error                \<comment> \<open>\<open>self.keywords[self.curr_token]\<close> on a non-keyword\<close>
  | Value_error              \<comment> \<open>\<open>int(...)\<close> of a non-numeral\<close>
  | Type_error               \<comment> \<open>iterating \<open>None\<close>, \<open>int(None)\<close>\<close>
  | Attribute_error          \<comment> \<open>reading \<open>self.indent\<close> before it is assigned\<close>
  | Closed_file              \<comment> \<open>\<open>ValueError: I/O operation on closed file\<close>\<close>
  | File_not_found           \<comment> \<open>\<open>open(jack_filename, 'r')\<close> of a missing file\<close>

text \<open>Statement sequencing under exceptions: run the rest only if the first statement did
  not raise.\<close>

definition then_ok :: "py_error + 'a \<Rightarrow> ('a \<Rightarrow> py_error + 'b) \<Rightarrow> py_error + 'b" where
  "then_ok r f = (case r of Inl e \<Rightarrow> Inl e | Inr a \<Rightarrow> f a)"

section \<open>Character classes\<close>

text \<open>\<open>str.isspace\<close> on Latin-1: the characters \<open>str.split()\<close> and \<open>str.strip()\<close> treat as
  whitespace (tab to carriage return, the four separators 0x1C to 0x1F, space, NEL, NBSP).\<close>

definition py_isspace :: "char \<Rightarrow> bool" where
  "py_isspace c =
     (let n = (of_char c :: nat)
      in (9 \<le> n \<and> n \<le> 13) \<or> (28 \<le> n \<and> n \<le> 32) \<or> n = 133 \<or> n = 160)"

text \<open>The decimal digits of Latin-1 (\<open>int()\<close> accepts no other Latin-1 digit).\<close>

definition is_digit :: "char \<Rightarrow> bool" where
  "is_digit c = (48 \<le> (of_char c :: nat) \<and> (of_char c :: nat) \<le> 57)"

lemma digit_not_space [simp]: "is_digit c \<Longrightarrow> \<not> py_isspace c"
  by (auto simp: is_digit_def py_isspace_def Let_def)

section \<open>String builtins\<close>

text \<open>\<open>s.strip()\<close>: whitespace removed at both ends.\<close>

definition py_strip :: "string \<Rightarrow> string" where
  "py_strip s = rev (dropWhile py_isspace (rev (dropWhile py_isspace s)))"

text \<open>\<open>s.split()\<close>: the maximal runs of non-whitespace characters, the current run
  accumulated in \<open>cur\<close>.\<close>

fun split_acc :: "string \<Rightarrow> string \<Rightarrow> string list" where
  "split_acc cur [] = (if cur = [] then [] else [cur])"
| "split_acc cur (c # cs) =
     (if py_isspace c then (if cur = [] then split_acc [] cs else cur # split_acc [] cs)
      else split_acc (cur @ [c]) cs)"

definition py_split :: "string \<Rightarrow> string list" where
  "py_split s = split_acc [] s"

text \<open>\<open>s.split(d)\<close> for a one-character separator \<open>d\<close>: every occurrence cuts,
  empty pieces are kept, and the result is never empty.\<close>

fun split_on_acc :: "char \<Rightarrow> string \<Rightarrow> string \<Rightarrow> string list" where
  "split_on_acc d cur [] = [cur]"
| "split_on_acc d cur (c # cs) =
     (if c = d then cur # split_on_acc d [] cs else split_on_acc d (cur @ [c]) cs)"

definition py_split_on :: "char \<Rightarrow> string \<Rightarrow> string list" where
  "py_split_on d s = split_on_acc d [] s"

text \<open>\<open>s.replace(c, r)\<close> for a one-character \<open>c\<close>: every occurrence replaced, left to
  right, the replacement never rescanned.\<close>

definition replace_char :: "char \<Rightarrow> string \<Rightarrow> string \<Rightarrow> string" where
  "replace_char c r s = concat (map (\<lambda>x. if x = c then r else [x]) s)"

text \<open>\<open>s.lower()\<close> on Latin-1: A to Z and the Latin-1 capitals (0xC0 to 0xDE but the
  multiplication sign 0xD7) move up by 32.\<close>

definition py_lower_char :: "char \<Rightarrow> char" where
  "py_lower_char c =
     (let n = (of_char c :: nat)
      in if (65 \<le> n \<and> n \<le> 90) \<or> (192 \<le> n \<and> n \<le> 222 \<and> n \<noteq> 215) then char_of (n + 32) else c)"

definition py_lower :: "string \<Rightarrow> string" where
  "py_lower s = map py_lower_char s"

text \<open>The \<open>for i, el in enumerate(s): if P(el): ... break\<close> search of the source: the index
  of the first element satisfying \<open>P\<close>, if any.\<close>

primrec first_index :: "('a \<Rightarrow> bool) \<Rightarrow> 'a list \<Rightarrow> nat option" where
  "first_index P [] = None"
| "first_index P (x # xs) = (if P x then Some 0 else map_option Suc (first_index P xs))"

section \<open>The fragment deque\<close>

text \<open>\<open>if rest: self.jack.appendleft(rest)\<close>: a remainder is pushed back on the front of
  the deque only when it is non-empty.  The deque itself is a list, its left end first.\<close>

definition push_nonempty :: "string \<Rightarrow> string list \<Rightarrow> string list" where
  "push_nonempty s q = (if s \<noteq> [] then s # q else q)"

text \<open>Number of characters still queued: the measure that every token consumed lowers.\<close>

definition qsize :: "string list \<Rightarrow> nat" where
  "qsize q = sum_list (map length q)"

text \<open>The shape every fragment of the deque keeps: non-empty and free of whitespace.\<close>

definition fragment_ok :: "string \<Rightarrow> bool" where
  "fragment_ok f = (f \<noteq> [] \<and> list_all (\<lambda>c. \<not> py_isspace c) f)"

text \<open>A property of fragments that every non-empty suffix inherits: what the remainders
  pushed back by \<open>advance\<close> keep.\<close>

definition suffix_closed :: "(string \<Rightarrow> bool) \<Rightarrow> bool" where
  "suffix_closed P = (\<forall>f k. P f \<longrightarrow> drop k f \<noteq> [] \<longrightarrow> P (drop k f))"

section \<open>Lemmas on the builtins\<close>

declare py_strip_def [py_str_simps] py_split_def [py_str_simps]
  py_split_on_def [py_str_simps] replace_char_def [py_str_simps]
  py_lower_def [py_str_simps] py_lower_char_def [py_str_simps]
  is_digit_def [py_str_simps] py_isspace_def [py_str_simps]

lemma then_ok_simps [simp]: "then_ok (Inl e) f = Inl e" "then_ok (Inr a) f = f a"
  by (simp_all add: then_ok_def)

lemma then_ok_Inr_iff: "then_ok r f = Inr b \<longleftrightarrow> (\<exists>a. r = Inr a \<and> f a = Inr b)"
  by (cases r) simp_all

lemma first_index_None_iff [simp]: "first_index P xs = None \<longleftrightarrow> (\<forall>x\<in>set xs. \<not> P x)"
  by (induction xs) auto

lemma first_index_Some:
  "first_index P xs = Some i \<Longrightarrow>
     i < length xs \<and> P (xs ! i) \<and> take i xs = takeWhile (\<lambda>x. \<not> P x) xs
     \<and> drop i xs = dropWhile (\<lambda>x. \<not> P x) xs"
  by (induction xs arbitrary: i) (auto split: if_splits)

lemma first_index_Some_nth:
  "first_index P xs = Some i \<Longrightarrow> xs = take i xs @ xs ! i # drop (Suc i) xs"
proof -
  assume "first_index P xs = Some i"
  then have "i < length xs" by (simp add: first_index_Some)
  then show ?thesis by (rule id_take_nth_drop)
qed

lemma push_nonempty_qsize [simp]: "qsize (push_nonempty s q) = length s + qsize q"
  by (simp add: push_nonempty_def qsize_def)

lemma qsize_Cons [simp]: "qsize (s # q) = length s + qsize q"
  by (simp add: qsize_def)

lemma qsize_Nil [simp]: "qsize [] = 0"
  by (simp add: qsize_def)

lemma set_push_nonempty: "set (push_nonempty s q) \<subseteq> insert s (set q)"
  by (auto simp: push_nonempty_def)

lemma fragment_ok_no_space: "fragment_ok f \<Longrightarrow> list_all (\<lambda>c. \<not> py_isspace c) f"
  by (simp add: fragment_ok_def)

lemma no_space_drop [intro]:
  "list_all (\<lambda>c. \<not> py_isspace c) s \<Longrightarrow> list_all (\<lambda>c. \<not> py_isspace c) (drop i s)"
  by (auto simp: list_all_iff dest: in_set_dropD)

lemma no_space_take [intro]:
  "list_all (\<lambda>c. \<not> py_isspace c) s \<Longrightarrow> list_all (\<lambda>c. \<not> py_isspace c) (take i s)"
  by (auto simp: list_all_iff dest: in_set_takeD)

lemma fragment_ok_push [intro]:
  "list_all (\<lambda>c. \<not> py_isspace c) s \<Longrightarrow> list_all fragment_ok q
     \<Longrightarrow> list_all fragment_ok (push_nonempty s q)"
  by (auto simp: push_nonempty_def fragment_ok_def)

lemma py_strip_no_space [simp]: "list_all (\<lambda>c. \<not> py_isspace c) s \<Longrightarrow> py_strip s = s"
proof -
  assume a: "list_all (\<lambda>c. \<not> py_isspace c) s"
  then have "dropWhile py_isspace s = s"
    by (cases s) auto
  moreover from a have "dropWhile py_isspace (rev s) = rev s"
    by (cases "rev s") (auto simp: list_all_iff dest: arg_cong [where f = set])
  ultimately show ?thesis by (simp add: py_strip_def)
qed

lemma set_py_strip: "set (py_strip s) \<subseteq> set s"
proof -
  have d: "\<And>P xs. set (dropWhile P xs) \<subseteq> set xs" by (auto dest: set_dropWhileD)
  have "set (dropWhile py_isspace (rev (dropWhile py_isspace s))) \<subseteq> set s"
    using d [of py_isspace "rev (dropWhile py_isspace s)"] d [of py_isspace s] by auto
  then show ?thesis by (simp add: py_strip_def)
qed

text \<open>\<open>str.split()\<close> yields non-empty, whitespace-free pieces: the loader's output is a
  well-formed deque.\<close>

lemma split_acc_fragment_ok:
  "list_all (\<lambda>c. \<not> py_isspace c) cur \<Longrightarrow> list_all fragment_ok (split_acc cur s)"
  by (induction cur s rule: split_acc.induct) (auto simp: fragment_ok_def)

lemma py_split_fragment_ok [intro]: "list_all fragment_ok (py_split s)"
  by (simp add: py_split_def split_acc_fragment_ok)

lemma suffix_closed_push:
  "suffix_closed P \<Longrightarrow> P f \<Longrightarrow> list_all P q \<Longrightarrow> list_all P (push_nonempty (drop k f) q)"
  by (auto simp: suffix_closed_def push_nonempty_def)

lemma suffix_closed_last_not_digit: "suffix_closed (\<lambda>f. \<not> is_digit (last f))"
  by (auto simp: suffix_closed_def last_drop)

subsection \<open>Splitting at newlines and at whitespace\<close>

lemma split_on_acc_no_sep: "d \<notin> set l \<Longrightarrow> split_on_acc d cur l = [cur @ l]"
  by (induction l arbitrary: cur) auto

lemma split_on_acc_sep:
  "d \<notin> set l \<Longrightarrow> split_on_acc d cur (l @ d # rest) = (cur @ l) # split_on_acc d [] rest"
  by (induction l arbitrary: cur) auto

lemma py_split_on_no_sep: "d \<notin> set l \<Longrightarrow> py_split_on d l = [l]"
  by (simp add: py_split_on_def split_on_acc_no_sep)

lemma py_split_on_sep: "d \<notin> set l \<Longrightarrow> py_split_on d (l @ d # rest) = l # py_split_on d rest"
  by (simp add: py_split_on_def split_on_acc_sep)

lemma dropWhile_append_stop: "\<not> P c \<Longrightarrow> dropWhile P (xs @ c # ys) = dropWhile P xs @ c # ys"
  by (induction xs) auto

lemma py_split_lstrip: "py_split (dropWhile py_isspace s) = py_split s"
  by (induction s) (simp_all add: py_split_def)

lemma py_split_Nil [simp]: "py_split [] = []"
  by (simp add: py_split_def)

lemma filter_nonempty_py_split:
  "filter (\<lambda>l. l \<noteq> []) (concat (map py_split ls)) = concat (map py_split ls)"
proof -
  have "\<forall>f\<in>set (concat (map py_split ls)). f \<noteq> []"
    using py_split_fragment_ok by (fastforce simp: list_all_iff fragment_ok_def)
  then show ?thesis by (simp add: filter_id_conv)
qed

end
