(* ===== verification/Py_Int.thy ===== *)
theory Py_Int
  imports Jack_Prelude
begin

text \<open>
  Python's \<open>int(s)\<close> on a string, as far as the tokenizer uses it: the test
  \<open>JackTokenizer.is_int\<close> (does \<open>int(s)\<close> raise \<open>ValueError\<close>?) and the value that
  \<open>JackTokenizer.int_val\<close> returns.  CPython accepts surrounding whitespace, one sign,
  and decimal digits in which single underscores may separate two digits
  (\<open>int('1_000') = 1000\<close>, while \<open>'1_'\<close>, \<open>'_1'\<close> and \<open>'1__0'\<close> are rejected).
  That the integer scan of \<open>advance\<close> stops on an underscore depends on this rule.
  Since CPython 3.11 (and the security releases 3.7.14, 3.8.14, 3.9.14, 3.10.7) \<open>int()\<close> also
  rejects a decimal literal of more than \<open>sys.get_int_max_str_digits()\<close> digits, 4300 by
  default; the count is of digits only, not of the sign, whitespace or underscores.  The model
  has this limit: it bounds the integer scan of \<open>advance\<close>.
\<close>

section \<open>The literal syntax accepted by int()\<close>

text \<open>A digit run in which single underscores may separate digits.\<close>

fun us_digits :: "string \<Rightarrow> bool" where
  "us_digits [] = False"
| "us_digits [c] = is_digit c"
| "us_digits (c # d # r) =
     (is_digit c \<and> (if d = CHR ''_'' then us_digits r else us_digits (d # r)))"

text \<open>The default of \<open>sys.get_int_max_str_digits()\<close>.\<close>

definition int_max_str_digits :: nat where
  "int_max_str_digits = 4300"

text \<open>A digit run that \<open>int()\<close> converts: well-formed and within the digit limit.\<close>

definition digit_run_ok :: "string \<Rightarrow> bool" where
  "digit_run_ok s = (us_digits s \<and> length (filter is_digit s) \<le> int_max_str_digits)"

text \<open>After stripping: an optional sign, then the digit run.\<close>

definition int_body :: "string \<Rightarrow> bool" where
  "int_body t =
     (case t of
        [] \<Rightarrow> False
      | c # r \<Rightarrow> if c = CHR ''+'' \<or> c = CHR ''-'' then digit_run_ok r else digit_run_ok t)"

text \<open>\<open>JackTokenizer.is_int\<close>: \<open>True\<close> iff \<open>int(string)\<close> does not raise.\<close>

definition is_int :: "string \<Rightarrow> bool" where
  "is_int s = int_body (py_strip s)"

text \<open>The value of an accepted literal: its digits read in base 10, negated after a minus.\<close>

definition digits_val :: "string \<Rightarrow> nat" where
  "digits_val s = foldl (\<lambda>n c. 10 * n + (of_char c - 48)) 0 (filter is_digit s)"

definition py_int :: "string \<Rightarrow> py_error + int" where
  "py_int s =
     (let t = py_strip s
      in if int_body t
         then Inr (if hd t = CHR ''-'' then - int (digits_val t) else int (digits_val t))
         else Inl Value_error)"

section \<open>Reference printer\<close>

text \<open>Python's \<open>str\<close> on an integer, the inverse that \<open>int()\<close> is meant to have: decimal
  digits, most significant first, and a minus sign for a negative value.\<close>

fun string_of_nat :: "nat \<Rightarrow> string" where
  "string_of_nat n = (if n < 10 then [char_of (48 + n)]
                      else string_of_nat (n div 10) @ [char_of (48 + n mod 10)])"

declare string_of_nat.simps [simp del]

definition string_of_int :: "int \<Rightarrow> string" where
  "string_of_int i = (if i < 0 then ''-'' @ string_of_nat (nat (- i)) else string_of_nat (nat i))"

section \<open>Lemmas\<close>

lemma us_digits_all_digits:
  "xs \<noteq> [] \<Longrightarrow> list_all is_digit xs \<Longrightarrow> us_digits xs"
  by (induction xs rule: us_digits.induct) (auto simp: is_digit_def)

lemma us_digits_last: "us_digits xs \<Longrightarrow> is_digit (last xs)"
  by (induction xs rule: us_digits.induct) (auto split: if_splits)

lemma digits_no_space: "list_all is_digit xs \<Longrightarrow> list_all (\<lambda>c. \<not> py_isspace c) xs"
  by (auto simp: list_all_iff)

lemma sign_not_digit [simp]: "\<not> is_digit CHR ''+''" "\<not> is_digit CHR ''-''"
  by (simp_all add: is_digit_def)

lemma filter_all_digits: "list_all is_digit xs \<Longrightarrow> filter is_digit xs = xs"
  by (simp add: list_all_iff)

text \<open>On a run of digits only, \<open>int()\<close> succeeds exactly within the digit limit.\<close>

lemma is_int_digits_iff:
  assumes "xs \<noteq> []" and "list_all is_digit xs"
  shows "is_int xs \<longleftrightarrow> length xs \<le> int_max_str_digits"
proof -
  from assms(2) have strip: "py_strip xs = xs" by (simp add: digits_no_space)
  from assms obtain c r where xs: "xs = c # r" and "is_digit c" by (cases xs) auto
  then have "c \<noteq> CHR ''+'' \<and> c \<noteq> CHR ''-''" by auto
  moreover have "is_int xs = int_body xs" by (simp add: is_int_def strip)
  ultimately show ?thesis
    using us_digits_all_digits [OF assms] filter_all_digits [OF assms(2)]
    by (simp add: int_body_def digit_run_ok_def xs)
qed

lemma is_int_digits:
  "xs \<noteq> [] \<Longrightarrow> list_all is_digit xs \<Longrightarrow> length xs \<le> int_max_str_digits \<Longrightarrow> is_int xs"
  by (simp add: is_int_digits_iff)

text \<open>A digit run followed by a character that is neither a digit nor whitespace is not.\<close>

lemma not_is_int_digits_snoc:
  assumes "ds \<noteq> []" and "list_all is_digit ds" and "\<not> is_digit c" and "\<not> py_isspace c"
  shows "\<not> is_int (ds @ [c])"
proof -
  have "list_all (\<lambda>c. \<not> py_isspace c) (ds @ [c])"
    using assms(2,4) by (simp add: digits_no_space)
  then have strip: "py_strip (ds @ [c]) = ds @ [c]" by simp
  from assms(1,2) obtain d r where ds: "ds = d # r" and "is_digit d" by (cases ds) auto
  then have "d \<noteq> CHR ''+'' \<and> d \<noteq> CHR ''-''" by auto
  moreover have "\<not> us_digits (ds @ [c])"
    using assms(3) us_digits_last [of "ds @ [c]"] by auto
  moreover have "is_int (ds @ [c]) = int_body (ds @ [c])" by (simp add: is_int_def strip)
  ultimately show ?thesis
    by (simp add: int_body_def digit_run_ok_def ds)
qed

lemma is_int_single [simp]: "is_int [c] \<longleftrightarrow> is_digit c"
proof (cases "py_isspace c")
  case True
  then show ?thesis by (auto simp: is_int_def py_strip_def int_body_def)
next
  case False
  then have "py_strip [c] = [c]" by simp
  then show ?thesis by (auto simp: is_int_def int_body_def digit_run_ok_def int_max_str_digits_def)
qed

lemma is_int_last_digit:
  assumes "is_int t" and "list_all (\<lambda>c. \<not> py_isspace c) t" and "t \<noteq> []" and "is_digit (hd t)"
  shows "is_digit (last t)"
proof -
  from assms(2) have "py_strip t = t" by simp
  with assms(1) have "int_body t" by (simp add: is_int_def)
  moreover from assms(3,4) obtain c r where t: "t = c # r" "is_digit c" by (cases t) auto
  moreover from t have "c \<noteq> CHR ''+'' \<and> c \<noteq> CHR ''-''" by auto
  ultimately have "us_digits t" by (auto simp: int_body_def digit_run_ok_def)
  then show ?thesis by (rule us_digits_last)
qed

subsection \<open>The reference printer\<close>

lemma string_of_nat_digits: "string_of_nat n \<noteq> [] \<and> list_all is_digit (string_of_nat n)"
proof (induction n rule: string_of_nat.induct)
  case (1 n)
  have "is_digit (char_of (48 + k))" if "k < 10" for k :: nat
    using that by (simp add: is_digit_def)
  with 1 show ?case by (simp add: string_of_nat.simps [of n])
qed

lemma digits_val_snoc:
  "is_digit c \<Longrightarrow> digits_val (s @ [c]) = 10 * digits_val s + (of_char c - 48)"
  by (simp add: digits_val_def)

lemma digits_val_string_of_nat: "digits_val (string_of_nat n) = n"
proof (induction n rule: string_of_nat.induct)
  case (1 n)
  have d: "of_char (char_of (48 + k) :: char) - 48 = k" if "k < 10" for k :: nat
    using that by simp
  have c: "is_digit (char_of (48 + k))" if "k < 10" for k :: nat
    using that by (simp add: is_digit_def)
  show ?case
  proof (cases "n < 10")
    case True
    then show ?thesis using d c by (simp add: string_of_nat.simps [of n] digits_val_def)
  next
    case False
    then have "digits_val (string_of_nat n) = 10 * (n div 10) + n mod 10"
      using 1 d c by (simp add: string_of_nat.simps [of n] digits_val_snoc)
    then show ?thesis by simp
  qed
qed

lemma length_string_of_nat:
  "0 < k \<Longrightarrow> length (string_of_nat n) \<le> k \<longleftrightarrow> n < 10 ^ k"
proof (induction n arbitrary: k rule: string_of_nat.induct)
  case (1 n)
  show ?case
  proof (cases "n < 10")
    case True
    have "(10::nat) \<le> 10 ^ k" using "1.prems" by (cases k) auto
    with True "1.prems" show ?thesis by (simp add: string_of_nat.simps [of n])
  next
    case False
    show ?thesis
    proof (cases k)
      case 0
      with "1.prems" show ?thesis by simp
    next
      case (Suc j)
      show ?thesis
      proof (cases j)
        case 0
        with False Suc show ?thesis
          using string_of_nat_digits [of "n div 10"] by (simp add: string_of_nat.simps [of n])
      next
        case (Suc j')
        have "n < 10 ^ Suc j \<longleftrightarrow> n div 10 < 10 ^ j"
          by (simp add: div_less_iff_less_mult mult.commute)
        with False "1.IH" [of j] \<open>k = Suc j\<close> Suc show ?thesis
          by (simp add: string_of_nat.simps [of n])
      qed
    qed
  qed
qed

subsection \<open>int() on digit strings\<close>

lemma py_int_digits:
  assumes "s \<noteq> []" and "list_all is_digit s"
  shows "py_int s = (if length s \<le> int_max_str_digits then Inr (int (digits_val s)) else Inl Value_error)"
    and "py_int (''-'' @ s) =
           (if length s \<le> int_max_str_digits then Inr (- int (digits_val s)) else Inl Value_error)"
proof -
  from assms obtain c r where s: "s = c # r" and c: "is_digit c" by (cases s) auto
  then have ns: "c \<noteq> CHR ''+'' \<and> c \<noteq> CHR ''-''" by auto
  have nsp: "list_all (\<lambda>c. \<not> py_isspace c) s" using assms(2) by (rule digits_no_space)
  have run: "digit_run_ok s \<longleftrightarrow> length s \<le> int_max_str_digits"
    using us_digits_all_digits [OF assms] filter_all_digits [OF assms(2)]
    by (simp add: digit_run_ok_def)
  from nsp have "py_strip s = s" by simp
  with ns run show "py_int s = (if length s \<le> int_max_str_digits then Inr (int (digits_val s))
                               else Inl Value_error)"
    by (simp add: py_int_def int_body_def s)
  from nsp have "py_strip (''-'' @ s) = ''-'' @ s" by (simp add: py_isspace_def)
  moreover have "digits_val (''-'' @ s) = digits_val s" by (simp add: digits_val_def)
  ultimately show "py_int (''-'' @ s) = (if length s \<le> int_max_str_digits
                     then Inr (- int (digits_val s)) else Inl Value_error)"
    using run by (simp add: py_int_def int_body_def)
qed


end
