(* ===== verification/Loader.thy ===== *)
theory Loader
  imports Jack_Prelude
begin

text \<open>
  \<open>JackTokenizer.load_file\<close>: the pre-pass that turns the text of a \<open>.jack\<close> file into
  the deque of fragments the tokenizer consumes.  The file is read whole (\<open>f.read()\<close>,
  with Python's universal newlines, so the model's input is the text after \<open>\r\n\<close> has
  become \<open>\n\<close>); the line-wise steps follow the source in order: split at newlines,
  strip each line, cut each line at its first \<open>//\<close>, blank the lines of block comments,
  split the rest at whitespace.  The source builds the result with \<open>deque(words)\<close>
  without importing \<open>deque\<close>; the model reads it as \<open>collections.deque\<close>
  (recorded as a finding).
\<close>

section \<open>Definitions\<close>

text \<open>\<open>line.split('//')[0]\<close>: the line up to its first \<open>//\<close>.\<close>

fun before_line_comment :: "string \<Rightarrow> string" where
  "before_line_comment (a # b # r) =
     (if a = CHR ''/'' \<and> b = CHR ''/'' then [] else a # before_line_comment (b # r))"
| "before_line_comment s = s"

text \<open>
  The \<open>in_comment\<close> loop: a line whose first two characters are \<open>/*\<close> opens a block
  comment; every line while the flag is set is blanked; a line that starts or ends with
  \<open>*/\<close> closes it (tested on the line as it was, after it has been blanked).
  \<open>line[-2:]\<close> is the whole line when it is shorter than two characters.
\<close>

fun strip_block_comments :: "bool \<Rightarrow> string list \<Rightarrow> string list" where
  "strip_block_comments in_comment [] = []"
| "strip_block_comments in_comment (line # lines) =
     (let start = take 2 line;
          last2 = drop (length line - 2) line;
          in_comment' = (in_comment \<or> start = ''/*'');
          line' = (if in_comment' then [] else line);
          in_comment'' = (if start = ''*/'' \<or> last2 = ''*/'' then False else in_comment')
      in line' # strip_block_comments in_comment'' lines)"

definition load_file :: "string \<Rightarrow> string list" where
  "load_file contents =
     (let lines = py_split_on (CHR ''\<newline>'') contents;
          lines = map py_strip lines;
          lines = map before_line_comment lines;
          lines = strip_block_comments False lines;
          words = concat (map py_split lines)
      in filter (\<lambda>l. l \<noteq> []) words)"

section \<open>Lemmas\<close>

lemma length_strip_block_comments [simp]:
  "length (strip_block_comments b ls) = length ls"
  by (induction b ls rule: strip_block_comments.induct) (simp_all add: Let_def)

text \<open>C20: the loader establishes the tokenizer's invariant: every fragment it produces is non-empty and free of whitespace.\<close>

theorem load_file_fragments: "list_all fragment_ok (load_file contents)"
proof -
  have "\<forall>l. list_all fragment_ok (py_split l)" by blast
  then show ?thesis by (auto simp: load_file_def Let_def list_all_iff)
qed

lemma strip_block_comments_none:
  "\<forall>l\<in>set ls. take 2 l \<noteq> ''/*'' \<Longrightarrow> strip_block_comments False ls = ls"
  by (induction ls) (simp_all add: Let_def)

lemma strip_block_comments_one_line:
  "take 2 m = ''/*'' \<Longrightarrow> drop (length m - 2) m = ''*/'' \<Longrightarrow>
     strip_block_comments False (m # ms) = [] # strip_block_comments False ms"
  by (simp add: Let_def)

lemma before_line_comment_cut:
  "CHR ''/'' \<notin> set a \<Longrightarrow> before_line_comment (a @ CHR ''/'' # CHR ''/'' # b) = a"
proof (induction a)
  case Nil
  then show ?case by simp
next
  case (Cons x a)
  then show ?case by (cases a) auto
qed

lemma slash_not_space [simp]: "\<not> py_isspace CHR ''/''"
  by (simp add: py_isspace_def)

lemma py_strip_line_comment:
  "py_strip (a @ CHR ''/'' # CHR ''/'' # b) =
     dropWhile py_isspace a @ CHR ''/'' # CHR ''/'' # rev (dropWhile py_isspace (rev b))"
  by (simp add: py_strip_def dropWhile_append_stop)

lemma no_slash_not_block_start: "CHR ''/'' \<notin> set x \<Longrightarrow> take 2 x \<noteq> ''/*''"
  by (metis append_take_drop_id list.set_intros(1) Un_iff set_append)

text \<open>C21: on a file in which no line, stripped and cut at its first //, starts with /*, the loader is exactly: split at newlines, strip each line, cut it at its first //, split at whitespace.  In particular a block comment that does not start its line is not removed: its delimiters and words become fragments.\<close>

theorem load_file_no_block_comments:
  assumes "\<forall>l\<in>set (py_split_on CHR ''\<newline>'' contents). take 2 (before_line_comment (py_strip l)) \<noteq> ''/*''"
  shows "load_file contents =
           concat (map (\<lambda>l. py_split (before_line_comment (py_strip l))) (py_split_on CHR ''\<newline>'' contents))"
proof -
  let ?ls = "map (\<lambda>l. before_line_comment (py_strip l)) (py_split_on CHR ''\<newline>'' contents)"
  have "strip_block_comments False ?ls = ?ls"
    using assms by (intro strip_block_comments_none) auto
  then show ?thesis
    by (simp add: load_file_def Let_def filter_nonempty_py_split comp_def)
qed

text \<open>C22: a line that, stripped and cut at //, starts with /* and ends with */ is dropped whole, so code after the closing */ on that line is lost; the comment is closed and the following lines are loaded as if the line were absent.\<close>

theorem load_file_comment_line:
  assumes "CHR ''\<newline>'' \<notin> set l"
    and "take 2 (before_line_comment (py_strip l)) = ''/*''"
    and "drop (length (before_line_comment (py_strip l)) - 2) (before_line_comment (py_strip l)) = ''*/''"
  shows "load_file (l @ CHR ''\<newline>'' # rest) = load_file rest"
  using assms by (simp add: load_file_def Let_def py_split_on_sep strip_block_comments_one_line)

text \<open>C23: a one-line file a//b, with no slash in a, yields exactly the words of a: everything after the first // is dropped, also when the // is inside a string constant, whose closing part is then lost.\<close>

theorem load_file_line_comment_cut:
  assumes "CHR ''/'' \<notin> set a" and "CHR ''\<newline>'' \<notin> set a" and "CHR ''\<newline>'' \<notin> set b"
  shows "load_file (a @ ''//'' @ b) = py_split a"
proof -
  let ?x = "dropWhile py_isspace a"
  have nx: "CHR ''/'' \<notin> set ?x" using assms(1) by (auto dest: set_dropWhileD)
  have lines: "py_split_on CHR ''\<newline>'' (a @ ''//'' @ b) = [a @ ''//'' @ b]"
    using assms(2,3) by (intro py_split_on_no_sep) auto
  have cut: "before_line_comment (py_strip (a @ ''//'' @ b)) = ?x"
    using nx by (simp add: py_strip_line_comment before_line_comment_cut)
  have "strip_block_comments False [?x] = [?x]"
    using nx by (intro strip_block_comments_none) (simp add: no_slash_not_block_start)
  with lines cut show ?thesis
    by (simp add: load_file_def Let_def filter_nonempty_py_split py_split_lstrip)
qed

section \<open>Witnesses\<close>

theorem load_file_no_block_comments_witness:
  "load_file ''let x = 1; /* note */'' = [''let'', ''x'', ''='', ''1;'', ''/*'', ''note'', ''*/'']"
proof -
  have h: "\<forall>l\<in>set (py_split_on CHR ''\<newline>'' ''let x = 1; /* note */'').
             take 2 (before_line_comment (py_strip l)) \<noteq> ''/*''"
    by code_simp
  have "concat (map (\<lambda>l. py_split (before_line_comment (py_strip l)))
          (py_split_on CHR ''\<newline>'' ''let x = 1; /* note */'')) = [''let'', ''x'', ''='', ''1;'', ''/*'', ''note'', ''*/'']"
    by code_simp
  with load_file_no_block_comments [OF h] show ?thesis by simp
qed

theorem load_file_comment_line_witness:
  "CHR ''\<newline>'' \<notin> set ''/* a */ let x = 1; /* b */'' \<and>
   take 2 (before_line_comment (py_strip ''/* a */ let x = 1; /* b */'')) = ''/*'' \<and>
   drop (length (before_line_comment (py_strip ''/* a */ let x = 1; /* b */'')) - 2)
        (before_line_comment (py_strip ''/* a */ let x = 1; /* b */'')) = ''*/'' \<and>
   load_file (''/* a */ let x = 1; /* b */'' @ CHR ''\<newline>'' # ''do f();'') = load_file ''do f();''"
proof -
  have h1: "CHR ''\<newline>'' \<notin> set ''/* a */ let x = 1; /* b */''" by code_simp
  have h2: "take 2 (before_line_comment (py_strip ''/* a */ let x = 1; /* b */'')) = ''/*''" by code_simp
  have h3: "drop (length (before_line_comment (py_strip ''/* a */ let x = 1; /* b */'')) - 2)
        (before_line_comment (py_strip ''/* a */ let x = 1; /* b */'')) = ''*/''" by code_simp
  from h1 h2 h3 load_file_comment_line [OF h1 h2 h3, of "''do f();''"] show ?thesis by blast
qed

theorem load_file_line_comment_cut_witness:
  "CHR ''/'' \<notin> set ''let s = \"http:'' \<and> CHR ''\<newline>'' \<notin> set ''let s = \"http:'' \<and>
   CHR ''\<newline>'' \<notin> set ''a\";'' \<and>
   load_file (''let s = \"http:'' @ ''//'' @ ''a\";'') = [''let'', ''s'', ''='', ''\"http:'']"
proof -
  have h1: "CHR ''/'' \<notin> set ''let s = \"http:''" by code_simp
  have h2: "CHR ''\<newline>'' \<notin> set ''let s = \"http:''" by code_simp
  have h3: "CHR ''\<newline>'' \<notin> set ''a\";''" by code_simp
  have "py_split ''let s = \"http:'' = [''let'', ''s'', ''='', ''\"http:'']" by code_simp
  with h1 h2 h3 load_file_line_comment_cut [OF h1 h2 h3] show ?thesis by simp
qed

end
