(* ===== verification/Tokenizer.thy ===== *)
theory Tokenizer
  imports Py_Int Loader
begin

text \<open>
  \<open>JackTokenizer\<close>: its state (the fragment deque \<open>jack\<close>, the current token and its
  type), its static tables (\<open>keyword_dict\<close>, \<open>symbol_set\<close>, the two-character operator
  list of \<open>advance\<close>), and \<open>advance\<close> with its four branches: symbol, string constant,
  integer constant, identifier or keyword.  The integer branch's \<open>while\<close> loop is a
  \<open>partial_function (option)\<close>: it does not return on a fragment made of at most 4300
  digits only (\<open>int()\<close> rejects longer literals, which stops the loop), and \<open>advance\<close>
  returns \<open>None\<close> exactly then.
\<close>

section \<open>State and static tables\<close>

text \<open>The five strings \<open>advance\<close> stores in \<open>self.token_type\<close>.\<close>

datatype ttype = KEYWORD | SYMBOL | INT_CONSTANT | STRING_CONSTANT | IDENTIFIER

text \<open>The attributes of a \<open>JackTokenizer\<close> that change (\<open>jack_filename\<close>,
  \<open>keywords\<close> and \<open>symbols\<close> are fixed at construction and are the constants below).\<close>

record tokenizer =
  jack :: "string list"
  curr_token :: "string option"
  token_type :: "ttype option"

definition keyword_dict :: "(string \<times> string) list" where
  "keyword_dict =
     [(''class'', ''CLASS''), (''constructor'', ''CONSTRUCTOR''), (''function'', ''FUNCTION''),
      (''method'', ''METHOD''), (''field'', ''FIELD''), (''static'', ''STATIC''),
      (''var'', ''VAR''), (''int'', ''INT''), (''char'', ''CHAR''), (''boolean'', ''BOOLEAN''),
      (''void'', ''VOID''), (''true'', ''TRUE''), (''false'', ''FALSE''), (''null'', ''NULL''),
      (''this'', ''THIS''), (''let'', ''LET''), (''do'', ''DO''), (''if'', ''IF''),
      (''else'', ''ELSE''), (''while'', ''WHILE''), (''return'', ''RETURN'')]"

definition keyword_map :: "string \<rightharpoonup> string" where
  "keyword_map = map_of keyword_dict"

definition symbol_set :: "char set" where
  "symbol_set = set ''{}()[].,;+-*/&|<>=~''"

text \<open>The two-character operators \<open>advance\<close> looks for (\<open>++\<close> is not a Jack symbol;
  it is kept as the source has it).\<close>

definition two_char_ops :: "string list" where
  "two_char_ops = [''++'', ''<='', ''>='']"

definition tokenizer_init :: "string \<Rightarrow> tokenizer" where
  "tokenizer_init contents = \<lparr>jack = load_file contents, curr_token = None, token_type = None\<rparr>"

definition has_more_tokens :: "tokenizer \<Rightarrow> bool" where
  "has_more_tokens st = (jack st \<noteq> [])"

section \<open>The four scanners of advance\<close>

text \<open>Symbol branch: the two-character operator if the fragment starts with one, otherwise
  the first character; the second component is what is pushed back.\<close>

definition scan_symbol :: "string \<Rightarrow> string \<times> string" where
  "scan_symbol t =
     (if 2 \<le> length t \<and> take 2 t \<in> set two_char_ops then (take 2 t, drop 2 t)
      else (take 1 t, drop 1 t))"

text \<open>String branch, the \<open>while True\<close> loop: \<open>full\<close> is \<open>full_string\<close>, \<open>cur\<close> is
  \<open>curr_string\<close>.  At the first quote of \<open>cur\<close> the loop returns the text before it and
  pushes back the text after it; otherwise it appends \<open>cur\<close> and a space and pops the next
  fragment, raising \<open>IndexError\<close> when the deque is empty.\<close>

fun scan_string :: "string \<Rightarrow> string \<Rightarrow> string list \<Rightarrow> py_error + string \<times> string list" where
  "scan_string full cur q =
     (case first_index (\<lambda>c. c = CHR 0x22) cur of
        Some i \<Rightarrow> Inr (full @ take i cur, push_nonempty (drop (Suc i) cur) q)
      | None \<Rightarrow>
          (case q of
             [] \<Rightarrow> Inl Unterminated_string
           | nxt # q' \<Rightarrow> scan_string (full @ cur @ '' '') nxt q'))"

declare scan_string.simps [simp del]

text \<open>Integer branch, \<open>while self.is_int(next_token[:int_idx+1]): int_idx += 1\<close>.
  \<open>next_token[:k]\<close> is \<open>take k\<close> also past the end, so on a fragment of at most 4300
  digits only the guard never fails.\<close>

partial_function (option) int_scan :: "string \<Rightarrow> nat \<Rightarrow> nat option" where
  "int_scan tok i = (if is_int (take (Suc i) tok) then int_scan tok (Suc i) else Some i)"

declare int_scan.simps [code]

text \<open>Identifier branch: the fragment up to its first symbol character; from that character
  on, the fragment is pushed back.\<close>

definition scan_word :: "string \<Rightarrow> string list \<Rightarrow> string \<times> string list" where
  "scan_word t q =
     (case first_index (\<lambda>c. c \<in> symbol_set) t of
        None \<Rightarrow> (t, q)
      | Some i \<Rightarrow> (take i t, drop i t # q))"

section \<open>advance\<close>

text \<open>
  \<open>JackTokenizer.advance\<close>.  \<open>None\<close>: the call does not return (integer branch on a
  digits-only fragment); \<open>Some (Inl e)\<close>: it raises \<open>e\<close>; \<open>Some (Inr st')\<close>: it returns
  with the tokenizer in state \<open>st'\<close>.
\<close>

definition advance :: "tokenizer \<Rightarrow> (py_error + tokenizer) option" where
  "advance st =
     (case jack st of
        [] \<Rightarrow> Some (Inl Empty_queue)
      | next_token # q \<Rightarrow>
          (case next_token of
             [] \<Rightarrow> Some (Inl String_index)
           | c # _ \<Rightarrow>
               if c \<in> symbol_set then
                 (let (tok, rest) = scan_symbol next_token
                  in Some (Inr (st\<lparr>jack := push_nonempty rest q, curr_token := Some tok,
                                   token_type := Some SYMBOL\<rparr>)))
               else if c = CHR 0x22 then
                 (case scan_string [] (drop 1 next_token) q of
                    Inl e \<Rightarrow> Some (Inl e)
                  | Inr (s, q') \<Rightarrow>
                      Some (Inr (st\<lparr>jack := q', curr_token := Some (py_strip s),
                                    token_type := Some STRING_CONSTANT\<rparr>)))
               else if is_int [c] then
                 (case int_scan next_token 0 of
                    None \<Rightarrow> None
                  | Some i \<Rightarrow>
                      Some (Inr (st\<lparr>jack := push_nonempty (drop i next_token) q,
                                    curr_token := Some (take i next_token),
                                    token_type := Some INT_CONSTANT\<rparr>)))
               else
                 (let (tok, q') = scan_word next_token q
                  in Some (Inr (st\<lparr>jack := q', curr_token := Some tok,
                                   token_type := Some (if keyword_map tok \<noteq> None then KEYWORD
                                                       else IDENTIFIER)\<rparr>)))))"

section \<open>Accessors\<close>

text \<open>\<open>key_word\<close>: \<open>self.keywords[self.curr_token]\<close>, a \<open>KeyError\<close> on a non-keyword.\<close>

definition key_word :: "tokenizer \<Rightarrow> py_error + string" where
  "key_word st =
     (case curr_token st of
        None \<Rightarrow> Inl Key_error
      | Some t \<Rightarrow> (case keyword_map t of None \<Rightarrow> Inl Key_error | Some k \<Rightarrow> Inr k))"

text \<open>\<open>int_val\<close>: \<open>int(self.curr_token)\<close>.\<close>

definition int_val :: "tokenizer \<Rightarrow> py_error + int" where
  "int_val st = (case curr_token st of None \<Rightarrow> Inl Type_error | Some t \<Rightarrow> py_int t)"

section \<open>Consistency of token kind and payload\<close>

text \<open>What each token kind says about the text stored with it (spec, data model: a token's kind
  and payload agree).\<close>

definition token_consistent :: "tokenizer \<Rightarrow> bool" where
  "token_consistent st =
     (case (token_type st, curr_token st) of
        (None, None) \<Rightarrow> True
      | (Some KEYWORD, Some t) \<Rightarrow> keyword_map t \<noteq> None
      | (Some SYMBOL, Some t) \<Rightarrow> (length t = 1 \<and> hd t \<in> symbol_set) \<or> t \<in> set two_char_ops
      | (Some INT_CONSTANT, Some t) \<Rightarrow> t \<noteq> [] \<and> list_all is_digit t \<and> length t \<le> int_max_str_digits
      | (Some STRING_CONSTANT, Some t) \<Rightarrow> CHR 0x22 \<notin> set t
      | (Some IDENTIFIER, Some t) \<Rightarrow>
          t \<noteq> [] \<and> keyword_map t = None \<and> list_all (\<lambda>c. c \<notin> symbol_set) t
          \<and> hd t \<noteq> CHR 0x22 \<and> \<not> is_digit (hd t)
      | _ \<Rightarrow> False)"

section \<open>Lemmas\<close>

lemma quote_not_symbol [simp]: "CHR 0x22 \<notin> symbol_set"
  by (simp add: symbol_set_def)

lemma digit_not_symbol [simp]: "is_digit c \<Longrightarrow> c \<notin> symbol_set"
  by (auto simp: symbol_set_def is_digit_def)

lemma digit_not_quote [simp]: "is_digit c \<Longrightarrow> c \<noteq> CHR 0x22"
  by (auto simp: is_digit_def)

subsection \<open>The integer scan\<close>

lemma first_index_append_hit:
  "\<forall>x\<in>set w. \<not> P x \<Longrightarrow> P y \<Longrightarrow> first_index P (w @ y # r) = Some (length w)"
  by (induction w) auto

lemma int_scan_result:
  assumes "int_scan tok i = Some y"
  shows "i \<le> y \<and> \<not> is_int (take (Suc y) tok) \<and> (\<forall>k. i \<le> k \<and> k < y \<longrightarrow> is_int (take (Suc k) tok))"
proof (rule int_scan.raw_induct [where P = "\<lambda>tok i y. i \<le> y \<and> \<not> is_int (take (Suc y) tok)
          \<and> (\<forall>k. i \<le> k \<and> k < y \<longrightarrow> is_int (take (Suc k) tok))", OF _ assms])
  fix f tok i y
  assume IH: "\<And>tok i y. f tok i = Some y \<Longrightarrow> i \<le> y \<and> \<not> is_int (take (Suc y) tok)
                 \<and> (\<forall>k. i \<le> k \<and> k < y \<longrightarrow> is_int (take (Suc k) tok))"
    and eq: "(if is_int (take (Suc i) tok) then f tok (Suc i) else Some i) = Some y"
  show "i \<le> y \<and> \<not> is_int (take (Suc y) tok) \<and> (\<forall>k. i \<le> k \<and> k < y \<longrightarrow> is_int (take (Suc k) tok))"
  proof (cases "is_int (take (Suc i) tok)")
    case True
    with eq have "f tok (Suc i) = Some y" by simp
    from IH [OF this] have y: "Suc i \<le> y" "\<not> is_int (take (Suc y) tok)"
      and all: "\<forall>k. Suc i \<le> k \<and> k < y \<longrightarrow> is_int (take (Suc k) tok)" by auto
    have "\<forall>k. i \<le> k \<and> k < y \<longrightarrow> is_int (take (Suc k) tok)"
    proof (intro allI impI)
      fix k assume "i \<le> k \<and> k < y"
      then consider "k = i" | "Suc i \<le> k \<and> k < y" by linarith
      then show "is_int (take (Suc k) tok)" using True all by cases auto
    qed
    with y show ?thesis by simp
  next
    case False
    with eq show ?thesis by auto
  qed
qed


lemma int_scan_None:
  assumes "\<forall>k. is_int (take (Suc k) tok)"
  shows "int_scan tok i = None"
proof (rule ccontr)
  assume "int_scan tok i \<noteq> None"
  then obtain y where "int_scan tok i = Some y" by blast
  then have "\<not> is_int (take (Suc y) tok)" by (simp add: int_scan_result)
  with assms show False by blast
qed

lemma int_scan_digits_only:
  assumes "tok \<noteq> []" and "list_all is_digit tok" and "length tok \<le> int_max_str_digits"
  shows "int_scan tok i = None"
proof (rule int_scan_None, rule allI)
  fix k
  from assms show "is_int (take (Suc k) tok)"
    by (intro is_int_digits) (auto simp: list_all_iff dest: in_set_takeD)
qed

lemma int_scan_digit_run:
  assumes ds: "ds \<noteq> []" "list_all is_digit ds" and c: "\<not> is_digit c" "\<not> py_isspace c"
    and lim: "length ds \<le> int_max_str_digits"
  shows "i \<le> length ds \<Longrightarrow> int_scan (ds @ c # r) i = Some (length ds)"
proof (induction "length ds - i" arbitrary: i)
  case 0
  then have "i = length ds" by simp
  moreover have "\<not> is_int (ds @ [c])" by (rule not_is_int_digits_snoc [OF ds c])
  ultimately show ?case by (subst int_scan.simps) simp
next
  case (Suc n)
  then have i: "i < length ds" by simp
  have "is_int (take (Suc i) ds)"
    using ds lim by (intro is_int_digits) (auto simp: list_all_iff dest: in_set_takeD)
  moreover have "int_scan (ds @ c # r) (Suc i) = Some (length ds)"
    using Suc i by simp
  ultimately show ?case using i by (subst int_scan.simps) simp
qed

text \<open>A digit run longer than the limit: the scan stops after \<open>int_max_str_digits\<close>
  digits, since \<open>int()\<close> rejects the next, longer prefix.\<close>

lemma int_scan_long:
  assumes len: "int_max_str_digits < length t"
    and dg: "list_all is_digit (take (Suc int_max_str_digits) t)"
  shows "i \<le> int_max_str_digits \<Longrightarrow> int_scan t i = Some int_max_str_digits"
proof (induction "int_max_str_digits - i" arbitrary: i)
  case 0
  then have i: "i = int_max_str_digits" by simp
  have "take (Suc int_max_str_digits) t \<noteq> []" using len by (cases t) auto
  with dg len have "\<not> is_int (take (Suc i) t)" by (simp add: is_int_digits_iff i)
  then show ?case by (subst int_scan.simps) (simp add: i)
next
  case (Suc n)
  then have i: "i < int_max_str_digits" by simp
  have "set (take (Suc i) t) \<subseteq> set (take (Suc int_max_str_digits) t)"
    using i by (simp add: set_take_subset_set_take)
  then have "list_all is_digit (take (Suc i) t)"
    using dg by (auto simp: list_all_iff)
  moreover have "take (Suc i) t \<noteq> []" using len by (cases t) auto
  moreover have "length (take (Suc i) t) \<le> int_max_str_digits" using i by simp
  ultimately have "is_int (take (Suc i) t)" by (metis is_int_digits)
  moreover have "int_scan t (Suc i) = Some int_max_str_digits" using Suc i by simp
  ultimately show ?case by (subst int_scan.simps) simp
qed

text \<open>The scan on a whitespace-free fragment that starts with a digit: unless the fragment is
  a short enough run of digits only (where it never stops), it returns the length of the leading
  digit run, cut at the digit limit.\<close>

lemma int_scan_exact:
  assumes sp: "list_all (\<lambda>c. \<not> py_isspace c) t" and ne: "t \<noteq> []" and hd: "is_digit (hd t)"
    and nd: "\<not> (list_all is_digit t \<and> length t \<le> int_max_str_digits)"
  shows "int_scan t 0 = Some (min (length (takeWhile is_digit t)) int_max_str_digits)"
proof -
  let ?ds = "takeWhile is_digit t"
  have dsd: "list_all is_digit ?ds" by (auto simp: list_all_iff dest: set_takeWhileD)
  have dsne: "?ds \<noteq> []" using ne hd by (cases t) auto
  have tsplit: "t = ?ds @ dropWhile is_digit t" by simp
  show ?thesis
  proof (cases "int_max_str_digits < length ?ds")
    case True
    have "take (Suc int_max_str_digits) t = take (Suc int_max_str_digits) (?ds @ dropWhile is_digit t)"
      by (simp only: takeWhile_dropWhile_id)
    also have "\<dots> = take (Suc int_max_str_digits) ?ds" using True by (simp only: take_append) simp
    finally have "take (Suc int_max_str_digits) t = take (Suc int_max_str_digits) ?ds" .
    then have "list_all is_digit (take (Suc int_max_str_digits) t)"
      using dsd by (auto simp: list_all_iff dest: in_set_takeD)
    moreover have "int_max_str_digits < length t"
      using True length_takeWhile_le [of is_digit t] by linarith
    ultimately show ?thesis using True by (simp add: int_scan_long)
  next
    case False
    have "dropWhile is_digit t \<noteq> []"
    proof
      assume "dropWhile is_digit t = []"
      then have "?ds = t" using tsplit by simp
      with False dsd nd show False by simp
    qed
    then obtain c' r' where rest: "dropWhile is_digit t = c' # r'" by (metis neq_Nil_conv)
    have "\<not> is_digit c'" using rest dropWhile_eq_Cons_conv by metis
    moreover have "c' \<in> set t" using rest set_dropWhileD by (metis list.set_intros(1))
    then have "\<not> py_isspace c'" using sp by (auto simp: list_all_iff)
    ultimately have "int_scan (?ds @ c' # r') 0 = Some (length ?ds)"
      using dsne dsd False by (intro int_scan_digit_run) auto
    with rest tsplit False show ?thesis by (metis min_absorb1 not_less)
  qed
qed

lemma int_scan_pos: "int_scan (c # r) 0 = Some i \<Longrightarrow> is_digit c \<Longrightarrow> 0 < i"
  using int_scan_result [of "c # r" 0 i] by (cases i) auto

subsection \<open>The other scanners\<close>

lemma scan_symbol_rest: "scan_symbol t = (tok, rest) \<Longrightarrow> tok @ rest = t \<and> (t \<noteq> [] \<longrightarrow> tok \<noteq> [])"
  by (auto simp: scan_symbol_def split: if_splits)

lemma scan_word_split:
  assumes "c \<notin> symbol_set" and "scan_word (c # r) q = (tok, q')"
  shows "tok = takeWhile (\<lambda>x. x \<notin> symbol_set) (c # r) \<and>
         q' = push_nonempty (dropWhile (\<lambda>x. x \<notin> symbol_set) (c # r)) q"
proof (cases "first_index (\<lambda>x. x \<in> symbol_set) (c # r)")
  case None
  then have all: "\<forall>x\<in>set (c # r). x \<notin> symbol_set"
    by (simp only: first_index_None_iff)
  have "scan_word (c # r) q = (c # r, q)"
    by (simp only: scan_word_def None option.case)
  moreover from all have "takeWhile (\<lambda>x. x \<notin> symbol_set) (c # r) = c # r"
    by (simp only: takeWhile_eq_all_conv)
  moreover from all have "dropWhile (\<lambda>x. x \<notin> symbol_set) (c # r) = []"
    by (simp only: dropWhile_eq_Nil_conv)
  ultimately show ?thesis using assms(2) by (simp add: push_nonempty_def)
next
  case (Some i)
  note fi = first_index_Some [OF Some]
  have "scan_word (c # r) q = (take i (c # r), drop i (c # r) # q)"
    by (simp only: scan_word_def Some option.case)
  moreover from fi have "i < length (c # r)" by blast
  then have "drop i (c # r) \<noteq> []" by simp
  ultimately show ?thesis using fi assms(2) by (simp add: push_nonempty_def)
qed

lemma scan_string_skip:
  assumes "CHR 0x22 \<notin> set cur"
  shows "scan_string full cur q =
           (case q of [] \<Rightarrow> Inl Unterminated_string | nxt # q' \<Rightarrow> scan_string (full @ cur @ '' '') nxt q')"
proof -
  from assms have "first_index (\<lambda>c. c = CHR 0x22) cur = None" by auto
  then show ?thesis by (subst scan_string.simps) (simp only: option.case)
qed

lemma scan_string_hit:
  assumes "first_index (\<lambda>c. c = CHR 0x22) cur = Some i"
  shows "scan_string full cur q = Inr (full @ take i cur, push_nonempty (drop (Suc i) cur) q)"
  using assms by (subst scan_string.simps) (simp only: option.case)

lemma scan_string_Inr:
  "scan_string full cur q = Inr (s, q') \<Longrightarrow>
     qsize q' < Suc (length cur + qsize q) \<and>
     (list_all (\<lambda>c. \<not> py_isspace c) cur \<longrightarrow> list_all fragment_ok q \<longrightarrow> list_all fragment_ok q')"
proof (induction full cur q rule: scan_string.induct)
  case (1 full cur q)
  show ?case
  proof (cases "first_index (\<lambda>c. c = CHR 0x22) cur")
    case None
    then have "CHR 0x22 \<notin> set cur" by auto
    with "1.prems" obtain nxt q1 where q: "q = nxt # q1" and
      rec: "scan_string (full @ cur @ '' '') nxt q1 = Inr (s, q')"
      by (auto simp: scan_string_skip split: list.splits)
    have "qsize q' < Suc (length nxt + qsize q1) \<and>
          (list_all (\<lambda>c. \<not> py_isspace c) nxt \<longrightarrow> list_all fragment_ok q1 \<longrightarrow> list_all fragment_ok q')"
      using "1.IH" [OF None q rec] .
    with q show ?thesis by (auto dest: fragment_ok_no_space)
  next
    case (Some i)
    with "1.prems" have "q' = push_nonempty (drop (Suc i) cur) q" by (simp add: scan_string_hit)
    with first_index_Some [OF Some] show ?thesis by auto
  qed
qed

subsection \<open>Successful steps\<close>

lemma advance_Inr_cases:
  assumes adv: "advance st = Some (Inr st')"
  obtains (symbol) c r q tok rest where "jack st = (c # r) # q" "c \<in> symbol_set"
      "scan_symbol (c # r) = (tok, rest)"
      "st' = st\<lparr>jack := push_nonempty rest q, curr_token := Some tok, token_type := Some SYMBOL\<rparr>"
  | (string) r q s q' where "jack st = (CHR 0x22 # r) # q" "scan_string [] r q = Inr (s, q')"
      "st' = st\<lparr>jack := q', curr_token := Some (py_strip s), token_type := Some STRING_CONSTANT\<rparr>"
  | (integer) c r q i where "jack st = (c # r) # q" "is_digit c" "int_scan (c # r) 0 = Some i"
      "st' = st\<lparr>jack := push_nonempty (drop i (c # r)) q, curr_token := Some (take i (c # r)),
                 token_type := Some INT_CONSTANT\<rparr>"
  | (word) c r q tok q' where "jack st = (c # r) # q" "c \<notin> symbol_set" "c \<noteq> CHR 0x22"
      "\<not> is_digit c" "scan_word (c # r) q = (tok, q')"
      "st' = st\<lparr>jack := q', curr_token := Some tok,
                 token_type := Some (if keyword_map tok \<noteq> None then KEYWORD else IDENTIFIER)\<rparr>"
proof -
  obtain t q where jq: "jack st = t # q"
    using adv by (cases "jack st") (auto simp: advance_def)
  obtain c r where t: "t = c # r"
    using adv jq by (cases t) (auto simp: advance_def)
  note adv' = adv [unfolded advance_def jq t list.case]
  show thesis
  proof (cases "c \<in> symbol_set")
    case True
    obtain tok rest where sc: "scan_symbol (c # r) = (tok, rest)" by fastforce
    from adv' True sc show thesis by (intro symbol [OF jq [unfolded t] True sc]) simp
  next
    case nsym: False
    show thesis
    proof (cases "c = CHR 0x22")
      case True
      from adv' nsym True obtain s q' where "scan_string [] r q = Inr (s, q')"
        and "st' = st\<lparr>jack := q', curr_token := Some (py_strip s), token_type := Some STRING_CONSTANT\<rparr>"
        by (auto split: sum.splits)
      with jq t True show thesis by (intro string) auto
    next
      case nquote: False
      show thesis
      proof (cases "is_digit c")
        case True
        from adv' nsym nquote True obtain i where "int_scan (c # r) 0 = Some i"
          and "st' = st\<lparr>jack := push_nonempty (drop i (c # r)) q, curr_token := Some (take i (c # r)),
                 token_type := Some INT_CONSTANT\<rparr>"
          by (auto split: option.splits)
        with jq t True show thesis by (intro integer) auto
      next
        case False
        obtain tok q' where sw: "scan_word (c # r) q = (tok, q')" by fastforce
        from adv' nsym nquote False sw show thesis
          by (intro word [OF jq [unfolded t] nsym nquote False sw]) simp
      qed
    qed
  qed
qed

lemma scan_symbol_shorter: "scan_symbol (c # r) = (tok, rest) \<Longrightarrow> length rest < Suc (length r)"
  by (auto simp: scan_symbol_def split: if_splits)

subsection \<open>The step consumes input\<close>

lemma advance_qsize_less:
  "advance st = Some (Inr st') \<Longrightarrow> qsize (jack st') < qsize (jack st)"
proof (induction rule: advance_Inr_cases)
  case (symbol c r q tok rest)
  then show ?case using scan_symbol_shorter [OF symbol(3)] by simp
next
  case (string r q s q')
  then show ?case using scan_string_Inr [OF string(2)] by simp
next
  case (integer c r q i)
  then show ?case using int_scan_pos [OF integer(3,2)] by simp
next
  case (word c r q tok q')
  have "length (dropWhile (\<lambda>x. x \<notin> symbol_set) (c # r)) < Suc (length r)"
    using word(2) by (simp add: le_imp_less_Suc length_dropWhile_le)
  with scan_word_split [OF word(2,5)] word(1,6) show ?case by simp
qed

lemma scan_symbol_suffix: "scan_symbol t = (tok, rest) \<Longrightarrow> rest = drop (length tok) t"
  by (cases t) (auto simp: scan_symbol_def split: if_splits)

lemma advance_fragments_ok:
  assumes wf: "list_all fragment_ok (jack st)" and adv: "advance st = Some (Inr st')"
  shows "list_all fragment_ok (jack st')"
  using adv
proof (cases rule: advance_Inr_cases)
  case (symbol c r q tok rest)
  with wf have "fragment_ok (c # r)" "list_all fragment_ok q" by auto
  with symbol(3,4) show ?thesis by (auto dest!: scan_symbol_suffix fragment_ok_no_space)
next
  case (string r q s q')
  with wf have "list_all (\<lambda>c. \<not> py_isspace c) r" "list_all fragment_ok q"
    by (auto simp: fragment_ok_def)
  with scan_string_Inr [OF string(2)] string(3) show ?thesis by simp
next
  case (integer c r q i)
  with wf have "fragment_ok (c # r)" "list_all fragment_ok q" by auto
  with integer(4) show ?thesis by (auto dest!: fragment_ok_no_space)
next
  case (word c r q tok q')
  with wf have "fragment_ok (c # r)" and q: "list_all fragment_ok q" by auto
  then have "list_all (\<lambda>c. \<not> py_isspace c) (dropWhile (\<lambda>x. x \<notin> symbol_set) (c # r))"
    unfolding dropWhile_eq_drop by (intro no_space_drop fragment_ok_no_space)
  with q scan_word_split [OF word(2,5)] word(6) show ?thesis by (simp add: fragment_ok_push)
qed

lemma scan_string_suffix_closed:
  "scan_string full cur q = Inr (s, q') \<Longrightarrow> suffix_closed P \<Longrightarrow> list_all P q \<Longrightarrow>
     (\<forall>k. drop k cur \<noteq> [] \<longrightarrow> P (drop k cur)) \<Longrightarrow> list_all P q'"
proof (induction full cur q rule: scan_string.induct)
  case (1 full cur q)
  show ?case
  proof (cases "first_index (\<lambda>c. c = CHR 0x22) cur")
    case None
    then have "CHR 0x22 \<notin> set cur" by auto
    with "1.prems"(1) obtain nxt q1 where q: "q = nxt # q1"
      and rec: "scan_string (full @ cur @ '' '') nxt q1 = Inr (s, q')"
      by (auto simp: scan_string_skip split: list.splits)
    from "1.prems"(2,3) q have "\<forall>k. drop k nxt \<noteq> [] \<longrightarrow> P (drop k nxt)"
      by (auto simp: suffix_closed_def)
    with "1.IH" [OF None q rec] "1.prems"(2,3) q show ?thesis by simp
  next
    case (Some i)
    with "1.prems"(1) have "q' = push_nonempty (drop (Suc i) cur) q" by (simp add: scan_string_hit)
    with "1.prems"(3,4) show ?thesis by (auto simp: push_nonempty_def)
  qed
qed

lemma advance_suffix_closed:
  assumes P: "suffix_closed P" and inv: "list_all P (jack st)" and adv: "advance st = Some (Inr st')"
  shows "list_all P (jack st')"
  using adv
proof (cases rule: advance_Inr_cases)
  case (symbol c r q tok rest)
  with inv have "P (c # r)" "list_all P q" by auto
  with symbol(3,4) P show ?thesis by (auto dest!: scan_symbol_suffix intro: suffix_closed_push)
next
  case (string r q s q')
  with inv have f: "P (CHR 0x22 # r)" and q: "list_all P q" by auto
  have "\<forall>k. drop k r \<noteq> [] \<longrightarrow> P (drop k r)"
  proof (intro allI impI)
    fix k assume "drop k r \<noteq> []"
    then have "drop (Suc k) (CHR 0x22 # r) \<noteq> []" by simp
    with P f have "P (drop (Suc k) (CHR 0x22 # r))" by (simp only: suffix_closed_def) blast
    then show "P (drop k r)" by simp
  qed
  with scan_string_suffix_closed [OF string(2) P q] string(3) show ?thesis by simp
next
  case (integer c r q i)
  with inv P show ?thesis by (auto intro: suffix_closed_push)
next
  case (word c r q tok q')
  with inv have "P (c # r)" "list_all P q" by auto
  moreover have "q' = push_nonempty (drop (length (takeWhile (\<lambda>x. x \<notin> symbol_set) (c # r))) (c # r)) q"
    using scan_word_split [OF word(2,5)] by (simp only: dropWhile_eq_drop)
  ultimately show ?thesis using word(6) P by (simp add: suffix_closed_push)
qed

lemma advance_None_int:
  assumes adv: "advance st = None"
  obtains c r q where "jack st = (c # r) # q" "is_digit c" "int_scan (c # r) 0 = None"
proof -
  obtain t q where jq: "jack st = t # q"
    using adv by (cases "jack st") (auto simp: advance_def)
  obtain c r where t: "t = c # r"
    using adv jq by (cases t) (auto simp: advance_def)
  note adv' = adv [unfolded advance_def jq t list.case]
  show thesis
  proof (cases "c \<in> symbol_set")
    case True
    with adv' show thesis by (simp add: case_prod_unfold Let_def)
  next
    case ns: False
    show thesis
    proof (cases "c = CHR 0x22")
      case True
      with adv' show thesis by (simp split: sum.splits prod.splits)
    next
      case nq: False
      show thesis
      proof (cases "is_digit c")
        case True
        with adv' ns nq show thesis
          by (intro that [OF jq [unfolded t] True]) (simp split: option.splits)
      next
        case False
        with adv' ns nq show thesis by (simp add: case_prod_unfold Let_def)
      qed
    qed
  qed
qed

lemma advance_None_digits:
  assumes wf: "list_all fragment_ok (jack st)" and none_st: "advance st = None"
  shows "\<exists>t q. jack st = t # q \<and> list_all is_digit t \<and> length t \<le> int_max_str_digits"
proof -
  from none_st obtain c r q where jq: "jack st = (c # r) # q" and c: "is_digit c"
    and none: "int_scan (c # r) 0 = None" by (rule advance_None_int)
  have sp: "list_all (\<lambda>c. \<not> py_isspace c) (c # r)"
    using wf jq by (simp add: fragment_ok_def)
  show ?thesis
  proof (rule ccontr)
    assume "\<not> ?thesis"
    with jq have "\<not> (list_all is_digit (c # r) \<and> length (c # r) \<le> int_max_str_digits)" by blast
    from int_scan_exact [OF sp _ _ this] c none show False by simp
  qed
qed

text \<open>C1: on a well-formed deque (fragments non-empty and free of whitespace), advance does not return exactly when the front fragment consists of digits only and has at most 4300 of them: then every prefix the integer loop tests, up to the whole fragment, is accepted by int(); a longer digit run is stopped by int()'s digit limit.\<close>

theorem advance_diverges_iff:
  assumes wf: "list_all fragment_ok (jack st)"
  shows "advance st = None \<longleftrightarrow>
           (\<exists>t q. jack st = t # q \<and> list_all is_digit t \<and> length t \<le> int_max_str_digits)"
proof
  assume "advance st = None"
  with wf show "\<exists>t q. jack st = t # q \<and> list_all is_digit t \<and> length t \<le> int_max_str_digits"
    by (rule advance_None_digits)
next
  assume "\<exists>t q. jack st = t # q \<and> list_all is_digit t \<and> length t \<le> int_max_str_digits"
  then obtain t q where jq: "jack st = t # q" and t: "list_all is_digit t"
    and len: "length t \<le> int_max_str_digits" by blast
  with wf obtain c r where tc: "t = c # r" by (cases t) (auto simp: fragment_ok_def)
  with t have c: "is_digit c" by simp
  have "int_scan (c # r) 0 = None" using t tc len by (intro int_scan_digits_only) auto
  with c show "advance st = None" by (simp add: advance_def jq tc)
qed

text \<open>C2: a fragment that starts with a run of digits ds, followed by the end of the fragment or by a character that is neither a digit nor whitespace, yields an INT_CONSTANT token holding the digit run cut at int()'s limit of 4300 digits; the rest of the fragment (the digits beyond the limit, then what followed the run) is pushed back in front of the deque.  The case of a short run that ends the fragment is C1's divergence.\<close>

theorem advance_integer:
  assumes jq: "jack st = (ds @ r) # q" and ne: "ds \<noteq> []" and dg: "list_all is_digit ds"
    and stop: "r = [] \<or> \<not> is_digit (hd r)" and sp: "list_all (\<lambda>c. \<not> py_isspace c) r"
    and ret: "r \<noteq> [] \<or> int_max_str_digits < length ds"
  shows "advance st = Some (Inr (st\<lparr>jack := push_nonempty (drop (min (length ds) int_max_str_digits) ds @ r) q,
                                    curr_token := Some (take (min (length ds) int_max_str_digits) ds),
                                    token_type := Some INT_CONSTANT\<rparr>))"
proof -
  let ?k = "min (length ds) int_max_str_digits"
  from ne dg obtain d ds' where ds: "ds = d # ds'" and d: "is_digit d" by (cases ds) auto
  have tw: "takeWhile is_digit (ds @ r) = ds"
  proof -
    have "takeWhile is_digit r = []" using stop by (cases r) auto
    with dg show ?thesis by (simp add: takeWhile_append2 list_all_iff)
  qed
  have "list_all (\<lambda>c. \<not> py_isspace c) (ds @ r)" using dg sp by (simp add: digits_no_space)
  moreover have "\<not> (list_all is_digit (ds @ r) \<and> length (ds @ r) \<le> int_max_str_digits)"
    using stop ret by (cases r) auto
  ultimately have "int_scan (ds @ r) 0 = Some ?k"
    using int_scan_exact [of "ds @ r"] tw d ds by simp
  moreover have "take ?k (ds @ r) = take ?k ds" and "drop ?k (ds @ r) = drop ?k ds @ r" by simp_all
  ultimately show ?thesis using jq d by (simp add: advance_def ds)
qed

text \<open>C3: longest match: a fragment starting with one of the two-character operators yields that operator as a SYMBOL token (length 2) and pushes back the rest of the fragment, if any.\<close>

theorem advance_two_char_symbol:
  assumes "jack st = (op @ rest) # q" and "op \<in> set two_char_ops"
  shows "advance st = Some (Inr (st\<lparr>jack := push_nonempty rest q, curr_token := Some op,
                                    token_type := Some SYMBOL\<rparr>))"
proof -
  from assms(2) have "op = ''++'' \<or> op = ''<='' \<or> op = ''>=''"
    by (simp add: two_char_ops_def)
  with assms(1) show ?thesis
    by (auto simp: advance_def scan_symbol_def symbol_set_def two_char_ops_def)
qed

text \<open>C4: a fragment starting with a symbol character that does not begin a two-character operator yields that single character as a SYMBOL token and pushes back the rest of the fragment, if any.\<close>

theorem advance_one_char_symbol:
  assumes "jack st = (c # r) # q" and "c \<in> symbol_set" and "take 2 (c # r) \<notin> set two_char_ops"
  shows "advance st = Some (Inr (st\<lparr>jack := push_nonempty r q, curr_token := Some [c],
                                    token_type := Some SYMBOL\<rparr>))"
  using assms by (simp add: advance_def scan_symbol_def)

text \<open>C5: a fragment whose first character is neither a symbol, a quote nor a digit yields its longest symbol-free prefix as the token, KEYWORD if that text is a reserved word and IDENTIFIER otherwise; the fragment from its first symbol on is pushed back.\<close>

theorem advance_word:
  assumes "jack st = (c # r) # q" and "c \<notin> symbol_set" and "c \<noteq> CHR 0x22" and "\<not> is_digit c"
  shows "advance st =
    Some (Inr (st\<lparr>jack := push_nonempty (dropWhile (\<lambda>x. x \<notin> symbol_set) (c # r)) q,
                  curr_token := Some (takeWhile (\<lambda>x. x \<notin> symbol_set) (c # r)),
                  token_type := Some (if keyword_map (takeWhile (\<lambda>x. x \<notin> symbol_set) (c # r)) \<noteq> None
                                      then KEYWORD else IDENTIFIER)\<rparr>))"
proof -
  obtain tok q' where sw: "scan_word (c # r) q = (tok, q')" by fastforce
  from scan_word_split [OF assms(2) sw] have "tok = takeWhile (\<lambda>x. x \<notin> symbol_set) (c # r)"
    and "q' = push_nonempty (dropWhile (\<lambda>x. x \<notin> symbol_set) (c # r)) q" by auto
  with assms sw show ?thesis by (simp add: advance_def)
qed

subsection \<open>String constants\<close>

lemma scan_string_closes:
  assumes "list_all (\<lambda>x. CHR 0x22 \<notin> set x) ws" and "CHR 0x22 \<notin> set cur" and "CHR 0x22 \<notin> set w"
  shows "scan_string full cur (ws @ (w @ CHR 0x22 # rest) # q)
           = Inr (full @ cur @ concat (map (\<lambda>x. '' '' @ x) ws) @ '' '' @ w, push_nonempty rest q)"
  using assms
proof (induction ws arbitrary: full cur)
  case Nil
  have "first_index (\<lambda>c. c = CHR 0x22) (w @ CHR 0x22 # rest) = Some (length w)"
    using Nil.prems(3) by (intro first_index_append_hit) auto
  with Nil.prems(2) show ?case by (simp add: scan_string_skip scan_string_hit)
next
  case (Cons v ws)
  have "scan_string full cur ((v # ws) @ (w @ CHR 0x22 # rest) # q)
               = scan_string (full @ cur @ '' '') v (ws @ (w @ CHR 0x22 # rest) # q)"
    using Cons.prems(2) by (simp add: scan_string_skip)
  also have "\<dots> = Inr ((full @ cur @ '' '') @ v @ concat (map (\<lambda>x. '' '' @ x) ws) @ '' '' @ w,
                       push_nonempty rest q)"
    using Cons.prems by (intro Cons.IH) auto
  finally show ?case by simp
qed

lemma scan_string_unterminated:
  "list_all (\<lambda>x. CHR 0x22 \<notin> set x) (cur # ws) \<Longrightarrow> scan_string full cur ws = Inl Unterminated_string"
proof (induction ws arbitrary: full cur)
  case Nil
  then show ?case by (simp add: scan_string_skip)
next
  case (Cons v ws)
  then show ?case by (simp add: scan_string_skip)
qed

text \<open>C6: a string constant spread over several fragments is scanned across them: the token is the text between the quotes with the fragments rejoined by single spaces and stripped, and the text after the closing quote is pushed back.\<close>

theorem advance_string:
  assumes "jack st = (CHR 0x22 # w0) # ws @ (w @ CHR 0x22 # rest) # q"
    and "list_all (\<lambda>x. CHR 0x22 \<notin> set x) (w0 # w # ws)"
  shows "advance st = Some (Inr (st\<lparr>jack := push_nonempty rest q,
            curr_token := Some (py_strip (w0 @ concat (map (\<lambda>x. '' '' @ x) ws) @ '' '' @ w)),
            token_type := Some STRING_CONSTANT\<rparr>))"
proof -
  have "scan_string [] w0 (ws @ (w @ CHR 0x22 # rest) # q)
          = Inr (w0 @ concat (map (\<lambda>x. '' '' @ x) ws) @ '' '' @ w, push_nonempty rest q)"
    using assms(2) scan_string_closes [of ws w0 w "[]" rest q] by simp
  with assms(1) show ?thesis by (simp add: advance_def)
qed

text \<open>C7: a string constant whose closing quote never comes before the deque runs out makes advance raise (the IndexError of popleft), not return a truncated token.\<close>

theorem advance_unterminated:
  assumes "jack st = (CHR 0x22 # w0) # ws" and "list_all (\<lambda>x. CHR 0x22 \<notin> set x) (w0 # ws)"
  shows "advance st = Some (Inl Unterminated_string)"
  using assms scan_string_unterminated [of w0 ws "[]"] by (simp add: advance_def)

subsection \<open>Token invariant\<close>

lemma int_scan_token_digits:
  assumes "int_scan (c # r) 0 = Some i" and "is_digit c"
    and "list_all (\<lambda>c. \<not> py_isspace c) (c # r)"
  shows "list_all is_digit (take i (c # r))"
proof -
  let ?t = "c # r"
  from int_scan_result [OF assms(1)]
  have ints: "\<forall>k. k < i \<longrightarrow> is_int (take (Suc k) ?t)" by simp
  have "is_digit (?t ! j)" if j: "j < length (take i ?t)" for j
  proof -
    from j have ji: "j < i" and jl: "j < length ?t" by auto
    have "take (Suc j) ?t = take j ?t @ [?t ! j]" using jl by (rule take_Suc_conv_app_nth)
    moreover have "is_digit (last (take (Suc j) ?t))"
      using ints ji assms(2,3) by (intro is_int_last_digit) (auto intro: no_space_take)
    ultimately show ?thesis by simp
  qed
  then show ?thesis by (auto simp: list_all_length)
qed

lemma scan_string_no_quote:
  "scan_string full cur q = Inr (s, q') \<Longrightarrow> CHR 0x22 \<notin> set full \<Longrightarrow> CHR 0x22 \<notin> set s"
proof (induction full cur q rule: scan_string.induct)
  case (1 full cur q)
  show ?case
  proof (cases "first_index (\<lambda>c. c = CHR 0x22) cur")
    case None
    then have nq: "CHR 0x22 \<notin> set cur" by auto
    with "1.prems"(1) obtain nxt q1 where q: "q = nxt # q1"
      and rec: "scan_string (full @ cur @ '' '') nxt q1 = Inr (s, q')"
      by (auto simp: scan_string_skip split: list.splits)
    from "1.prems"(2) nq have "CHR 0x22 \<notin> set (full @ cur @ '' '')" by auto
    with "1.IH" [OF None q rec] show ?thesis by blast
  next
    case (Some i)
    with "1.prems"(1) have "s = full @ take i cur" by (simp add: scan_string_hit)
    with first_index_Some [OF Some] "1.prems"(2) show ?thesis
      by (auto dest: set_takeWhileD)
  qed
qed

lemma advance_token_consistent_step:
  assumes wf: "list_all fragment_ok (jack st)" and adv: "advance st = Some (Inr st')"
  shows "token_consistent st'"
  using adv
proof (cases rule: advance_Inr_cases)
  case (symbol c r q tok rest)
  then show ?thesis
    by (auto simp: token_consistent_def scan_symbol_def split: if_splits)
next
  case (string r q s q')
  have "CHR 0x22 \<notin> set s" using scan_string_no_quote [OF string(2)] by simp
  then have "CHR 0x22 \<notin> set (py_strip s)" using set_py_strip by blast
  with string(3) show ?thesis by (simp add: token_consistent_def)
next
  case (integer c r q i)
  with wf have "list_all (\<lambda>c. \<not> py_isspace c) (c # r)" by (simp add: fragment_ok_def)
  then have dg: "list_all is_digit (take i (c # r))" by (rule int_scan_token_digits [OF integer(3,2)])
  have pos: "0 < i" by (rule int_scan_pos [OF integer(3,2)])
  then have ne: "take i (c # r) \<noteq> []" by simp
  from pos obtain j where j: "i = Suc j" by (cases i) auto
  from int_scan_result [OF integer(3)] have "\<forall>k. 0 \<le> k \<and> k < i \<longrightarrow> is_int (take (Suc k) (c # r))"
    by blast
  then have "is_int (take (Suc j) (c # r))" using j by blast
  with j have "is_int (take i (c # r))" by simp
  with ne dg have "length (take i (c # r)) \<le> int_max_str_digits" by (simp add: is_int_digits_iff)
  with dg ne show ?thesis using integer(4) by (simp add: token_consistent_def)
next
  case (word c r q tok q')
  from scan_word_split [OF word(2,5)] have tok: "tok = takeWhile (\<lambda>x. x \<notin> symbol_set) (c # r)" ..
  then have "tok = c # takeWhile (\<lambda>x. x \<notin> symbol_set) r" using word(2) by simp
  moreover have "list_all (\<lambda>x. x \<notin> symbol_set) tok"
    using tok by (auto simp: list_all_iff dest: set_takeWhileD)
  ultimately show ?thesis using word(3,4,6) by (auto simp: token_consistent_def)
qed

text \<open>C8: every token advance produces from a well-formed deque is consistent with its kind: symbols are symbol characters or two-character operators, integer constants non-empty digit runs of at most 4300 digits (so int_val converts them), string constants free of quotes, keywords keys of the keyword table, identifiers non-empty, symbol-free, not keywords and not starting with a digit or quote.\<close>

theorem advance_token_consistent:
  assumes wf: "list_all fragment_ok (jack st)" and adv: "advance st = Some (Inr st')"
  shows "token_consistent st'"
  using wf adv by (rule advance_token_consistent_step)

section \<open>Witnesses\<close>

text \<open>Each theorem above with a hypothesis, applied at a concrete tokenizer state.\<close>

theorem advance_diverges_iff_witness:
  "list_all fragment_ok [''12'', '';''] \<and>
   advance \<lparr>jack = [''12'', '';''], curr_token = None, token_type = None\<rparr> = None"
proof -
  have wf: "list_all fragment_ok [''12'', '';'']"
    by (simp add: fragment_ok_def py_isspace_def)
  with advance_diverges_iff [of "\<lparr>jack = [''12'', '';''], curr_token = None, token_type = None\<rparr>"]
  show ?thesis by (simp add: is_digit_def int_max_str_digits_def)
qed

theorem advance_integer_witness:
  "list_all is_digit (replicate 4301 CHR ''7'') \<and> int_max_str_digits < 4301 \<and>
   advance \<lparr>jack = [replicate 4301 CHR ''7''], curr_token = None, token_type = None\<rparr>
     = Some (Inr \<lparr>jack = [''7''], curr_token = Some (replicate 4300 CHR ''7''),
                  token_type = Some INT_CONSTANT\<rparr>)"
  using advance_integer [of "\<lparr>jack = [replicate 4301 CHR ''7''], curr_token = None, token_type = None\<rparr>"
      "replicate 4301 CHR ''7''" "[]" "[]"]
  by (simp add: is_digit_def int_max_str_digits_def push_nonempty_def list_all_iff)

theorem advance_two_char_symbol_witness:
  "''<='' \<in> set two_char_ops \<and>
   advance \<lparr>jack = [''<=x''], curr_token = None, token_type = None\<rparr>
     = Some (Inr \<lparr>jack = [''x''], curr_token = Some ''<='', token_type = Some SYMBOL\<rparr>)"
  using advance_two_char_symbol [of "\<lparr>jack = [''<=x''], curr_token = None, token_type = None\<rparr>"
      "''<=''" "''x''" "[]"]
  by (simp add: two_char_ops_def push_nonempty_def)

theorem advance_one_char_symbol_witness:
  "CHR ''<'' \<in> symbol_set \<and> ''<x'' \<notin> set two_char_ops \<and>
   advance \<lparr>jack = [''<x''], curr_token = None, token_type = None\<rparr>
     = Some (Inr \<lparr>jack = [''x''], curr_token = Some ''<'', token_type = Some SYMBOL\<rparr>)"
  using advance_one_char_symbol [of "\<lparr>jack = [''<x''], curr_token = None, token_type = None\<rparr>"
      "CHR ''<''" "''x''" "[]"]
  by (simp add: two_char_ops_def symbol_set_def push_nonempty_def)

theorem advance_word_witness:
  "CHR ''x'' \<notin> symbol_set \<and> CHR ''x'' \<noteq> CHR 0x22 \<and> \<not> is_digit CHR ''x'' \<and>
   advance \<lparr>jack = [''x1;''], curr_token = None, token_type = None\<rparr>
     = Some (Inr \<lparr>jack = ['';''], curr_token = Some ''x1'', token_type = Some IDENTIFIER\<rparr>)"
  using advance_word [of "\<lparr>jack = [''x1;''], curr_token = None, token_type = None\<rparr>"
      "CHR ''x''" "''1;''" "[]"]
  by (simp add: symbol_set_def is_digit_def push_nonempty_def keyword_map_def keyword_dict_def)

theorem advance_string_witness:
  "list_all (\<lambda>x. CHR 0x22 \<notin> set x) [''abc'', ''def''] \<and>
   advance \<lparr>jack = [''\"abc'', ''def\";''], curr_token = None, token_type = None\<rparr>
     = Some (Inr \<lparr>jack = ['';''], curr_token = Some ''abc def'', token_type = Some STRING_CONSTANT\<rparr>)"
  using advance_string [of "\<lparr>jack = [''\"abc'', ''def\";''], curr_token = None, token_type = None\<rparr>"
      "''abc''" "[]" "''def''" "'';''" "[]"]
  by (simp add: push_nonempty_def py_strip_def py_isspace_def)

theorem advance_unterminated_witness:
  "list_all (\<lambda>x. CHR 0x22 \<notin> set x) [''abc'', ''def''] \<and>
   advance \<lparr>jack = [''\"abc'', ''def''], curr_token = None, token_type = None\<rparr>
     = Some (Inl Unterminated_string)"
  using advance_unterminated [of "\<lparr>jack = [''\"abc'', ''def''], curr_token = None, token_type = None\<rparr>"
      "''abc''" "[''def'']"]
  by simp

theorem advance_token_consistent_witness:
  "list_all fragment_ok [''10;''] \<and>
   token_consistent \<lparr>jack = ['';''], curr_token = Some ''10'', token_type = Some INT_CONSTANT\<rparr>"
proof -
  have wf: "list_all fragment_ok (jack \<lparr>jack = [''10;''], curr_token = None, token_type = None\<rparr>)"
    by (simp add: fragment_ok_def py_isspace_def)
  have adv: "advance \<lparr>jack = [''10;''], curr_token = None, token_type = None\<rparr>
      = Some (Inr \<lparr>jack = ['';''], curr_token = Some ''10'', token_type = Some INT_CONSTANT\<rparr>)"
    by (simp add: advance_def int_scan.simps is_int_def int_body_def digit_run_ok_def int_max_str_digits_def py_str_simps push_nonempty_def
        symbol_set_def)
  from wf advance_token_consistent [OF wf adv] show ?thesis by simp
qed

end
