(* ===== verification/Emitter.thy ===== *)
theory Emitter
  imports Jack_Prelude
begin

text \<open>
  \<open>CompilationEngine\<close>: the writer of the \<open>T.xml\<close> token file.  Its state is the
  output file (name, text written so far, open or closed) and the attribute
  \<open>self.indent\<close>, which the source increments and decrements but never assigns first:
  \<open>indent = None\<close> is the attribute not existing.  Every method returns the new state or
  the exception it raises.  The constructor opens the file in a \<open>with\<close> block, so the file
  is closed again when \<open>__init__\<close> returns; it fails before that, at \<open>self.updent()\<close>.
\<close>

section \<open>State\<close>

record engine =
  out_name :: string
  out :: string
  is_open :: bool
  indent :: "int option"

section \<open>Operations\<close>

text \<open>\<open>jack_filename[:-4] + 'T.xml'\<close>; \<open>s[:-4]\<close> is empty for a name shorter than four.\<close>

definition out_filename :: "string \<Rightarrow> string" where
  "out_filename f = take (length f - 4) f @ ''T.xml''"

text \<open>\<open>write\<close>: \<open>self.xml.write(content)\<close>; on a closed file Python raises ValueError.\<close>

definition ce_write :: "engine \<Rightarrow> string \<Rightarrow> py_error + engine" where
  "ce_write e content = (if is_open e then Inr (e\<lparr>out := out e @ content\<rparr>) else Inl Closed_file)"

definition updent :: "engine \<Rightarrow> py_error + engine" where
  "updent e = (case indent e of None \<Rightarrow> Inl Attribute_error | Some n \<Rightarrow> Inr (e\<lparr>indent := Some (n + 2)\<rparr>))"

definition downdent :: "engine \<Rightarrow> py_error + engine" where
  "downdent e = (case indent e of None \<Rightarrow> Inl Attribute_error | Some n \<Rightarrow> Inr (e\<lparr>indent := Some (n - 2)\<rparr>))"

text \<open>The three replacements of \<open>write_token\<close>, in the source's order.\<close>

definition escape :: "string \<Rightarrow> string" where
  "escape tok =
     replace_char CHR ''>'' ''&gt;'' (replace_char CHR ''<'' ''&lt;'' (replace_char CHR ''&'' ''&amp;'' tok))"

text \<open>\<open>write_token\<close>: escape the token, then three writes.  \<open>' ' * self.indent\<close> is
  evaluated before the first write, so a missing \<open>indent\<close> raises before anything is
  written; \<open>' ' * n\<close> is empty for \<open>n \<le> 0\<close>.\<close>

definition write_token :: "engine \<Rightarrow> string \<Rightarrow> string \<Rightarrow> py_error + engine" where
  "write_token e token_type token =
     (let token = escape token
      in case indent e of
           None \<Rightarrow> Inl Attribute_error
         | Some n \<Rightarrow>
             then_ok (ce_write e (replicate (nat n) CHR '' '' @ ''<'' @ py_lower token_type @ ''> ''))
               (\<lambda>e1. then_ok (ce_write e1 token)
                 (\<lambda>e2. ce_write e2 ('' </'' @ py_lower token_type @ ''>'' @ ''\<newline>''))))"

text \<open>\<open>close\<close>: dedent, write the footer, close the file.\<close>

definition ce_close :: "engine \<Rightarrow> py_error + engine" where
  "ce_close e =
     then_ok (downdent e) (\<lambda>e1. then_ok (ce_write e1 ''</tokens>'') (\<lambda>e2. Inr (e2\<lparr>is_open := False\<rparr>)))"

text \<open>\<open>__init__\<close>: open the output file (a fresh engine without \<open>indent\<close>), and inside
  the \<open>with\<close> block write the header and indent.  Leaving the block closes the file, on
  the normal path and on an exception alike.\<close>

definition ce_init :: "string \<Rightarrow> py_error + engine" where
  "ce_init jack_filename =
     (let e0 = \<lparr>out_name = out_filename jack_filename, out = [], is_open = True, indent = None\<rparr>
      in then_ok (then_ok (ce_write e0 (''<tokens>'' @ ''\<newline>'')) updent)
           (\<lambda>e. Inr (e\<lparr>is_open := False\<rparr>)))"

section \<open>Reference decoder\<close>

text \<open>The reading of the three entities an XML consumer applies, and the per-character form of
  the escaping; neither is code of the analyser, both are the yardstick for \<open>escape\<close>.\<close>

fun unescape :: "string \<Rightarrow> string" where
  "unescape [] = []"
| "unescape (c # r) =
     (if c = CHR ''&'' \<and> take 3 r = ''lt;'' then CHR ''<'' # unescape (drop 3 r)
      else if c = CHR ''&'' \<and> take 3 r = ''gt;'' then CHR ''>'' # unescape (drop 3 r)
      else if c = CHR ''&'' \<and> take 4 r = ''amp;'' then CHR ''&'' # unescape (drop 4 r)
      else c # unescape r)"

definition escape_char :: "char \<Rightarrow> string" where
  "escape_char c =
     (if c = CHR ''&'' then ''&amp;'' else if c = CHR ''<'' then ''&lt;''
      else if c = CHR ''>'' then ''&gt;'' else [c])"

section \<open>Lemmas\<close>

lemma replace_char_append [simp]:
  "replace_char c r (xs @ ys) = replace_char c r xs @ replace_char c r ys"
  by (simp add: replace_char_def)

lemma escape_Cons: "escape (c # s) = escape_char c @ escape s"
  by (simp add: escape_def replace_char_def escape_char_def)

lemma escape_concat: "escape s = concat (map escape_char s)"
  by (induction s) (simp_all add: escape_Cons, simp add: escape_def replace_char_def)

lemma unescape_escape_char: "unescape (escape_char c @ r) = c # unescape r"
  by (cases "c = CHR ''&''"; cases "c = CHR ''<''"; cases "c = CHR ''>''")
     (simp_all add: escape_char_def)

text \<open>C10: escaping is reversible: decoding the entities of an escaped token gives the token back.\<close>

theorem escape_roundtrip: "unescape (escape s) = s"
  by (induction s) (simp_all add: escape_concat unescape_escape_char)

text \<open>C11: an escaped token never contains a raw angle bracket.\<close>

theorem escape_no_brackets: "CHR ''<'' \<notin> set (escape s) \<and> CHR ''>'' \<notin> set (escape s)"
  by (induction s) (auto simp: escape_concat escape_char_def)

text \<open>C12: on an open file with \<open>indent\<close> set to \<open>n\<close>, write_token appends one line: \<open>n\<close>
  spaces, the lower-cased tag, the escaped token, the closing tag and a newline.\<close>

theorem write_token_output:
  assumes "indent e = Some n" and "is_open e"
  shows "write_token e tt tok =
           Inr (e\<lparr>out := out e @ replicate (nat n) CHR '' '' @ ''<'' @ py_lower tt @ ''> ''
                       @ escape tok @ '' </'' @ py_lower tt @ ''>'' @ ''\<newline>''\<rparr>)"
  using assms by (simp add: write_token_def ce_write_def)

text \<open>C13: the constructor always raises AttributeError: \<open>updent\<close> reads \<open>self.indent\<close>,
  which nothing assigned; the \<open>with\<close> block has already closed the file.\<close>

theorem ce_init_fails: "ce_init f = Inl Attribute_error"
  by (simp add: ce_init_def ce_write_def updent_def)

text \<open>C14: the output name keeps the dot of the extension: \<open>B.jack\<close> is written to \<open>B.T.xml\<close>.\<close>

theorem out_filename_jack: "out_filename (b @ ''.jack'') = b @ ''.T.xml''"
  by (simp add: out_filename_def)

section \<open>Witnesses\<close>

theorem write_token_output_witness:
  "indent \<lparr>out_name = ''MainT.xml'', out = [], is_open = True, indent = Some 2\<rparr> = Some 2 \<and>
   write_token \<lparr>out_name = ''MainT.xml'', out = [], is_open = True, indent = Some 2\<rparr> ''symbol'' ''<''
     = Inr \<lparr>out_name = ''MainT.xml'', out = ''  <symbol> &lt; </symbol>\<newline>'',
            is_open = True, indent = Some 2\<rparr>"
proof -
  have "write_token \<lparr>out_name = ''MainT.xml'', out = [], is_open = True, indent = Some 2\<rparr> ''symbol'' ''<''
     = Inr \<lparr>out_name = ''MainT.xml'', out = replicate (nat 2) CHR '' '' @ ''<'' @ py_lower ''symbol'' @ ''> ''
              @ escape ''<'' @ '' </'' @ py_lower ''symbol'' @ ''>'' @ ''\<newline>'', is_open = True, indent = Some 2\<rparr>"
    using write_token_output [of "\<lparr>out_name = ''MainT.xml'', out = [], is_open = True, indent = Some 2\<rparr>" 2]
    by simp
  also have "\<dots> = Inr \<lparr>out_name = ''MainT.xml'', out = ''  <symbol> &lt; </symbol>\<newline>'',
            is_open = True, indent = Some 2\<rparr>"
    by code_simp
  finally show ?thesis by simp
qed

end
