(* ===== verification/Analyzer.thy ===== *)
theory Analyzer
  imports Tokenizer Emitter
begin

text \<open>
  \<open>JackAnalyzer\<close>, the driver: \<open>parse_files\<close> selects the input, \<open>analyze\<close> builds a
  tokenizer and an engine and runs the \<open>while tokenizer.has_more_tokens()\<close> loop, which
  calls \<open>advance\<close> and hands the current token to \<open>write_token\<close> under the tag its type
  selects; \<open>__init__\<close> analyses every selected file.  The file system is a map from
  paths to contents.  The loop may not return (when \<open>advance\<close> does not), so it is a
  \<open>partial_function (option)\<close>.  Beside it, \<open>tokenize\<close> is the abstract token stream:
  the same loop collecting (type, text) pairs instead of writing them.
\<close>

section \<open>Definitions\<close>

text \<open>Python's \<open>pat in s\<close> on strings: \<open>pat\<close> occurs at some position of \<open>s\<close>.\<close>

definition py_contains :: "string \<Rightarrow> string \<Rightarrow> bool" where
  "py_contains pat s = list_ex (\<lambda>i. take (length pat) (drop i s) = pat) [0..<Suc (length s)]"

text \<open>\<open>parse_files\<close>: \<open>[file_path]\<close> if the path contains \<open>.jack\<close>, otherwise it prints a
  message (not modelled) and returns \<open>None\<close>.\<close>

definition parse_files :: "string \<Rightarrow> string list option" where
  "parse_files file_path = (if py_contains ''.jack'' file_path then Some [file_path] else None)"

text \<open>The tag \<open>analyze\<close> passes to \<open>write_token\<close> for each token type.\<close>

definition tag_name :: "ttype \<Rightarrow> string" where
  "tag_name tt =
     (case tt of
        KEYWORD \<Rightarrow> ''keyword'' | SYMBOL \<Rightarrow> ''symbol'' | INT_CONSTANT \<Rightarrow> ''integerConstant''
      | STRING_CONSTANT \<Rightarrow> ''stringConstant'' | IDENTIFIER \<Rightarrow> ''identifier'')"

text \<open>The \<open>if/elif\<close> chain of the loop body: no branch matches while \<open>token_type\<close> is
  \<open>None\<close>; \<open>str(tokenizer.curr_token)\<close> of a string is the string itself.\<close>

definition emit_current :: "tokenizer \<Rightarrow> engine \<Rightarrow> py_error + engine" where
  "emit_current tk ce =
     (case token_type tk of
        None \<Rightarrow> Inr ce
      | Some tt \<Rightarrow>
          (case curr_token tk of
             None \<Rightarrow> Inl Attribute_error
           | Some tok \<Rightarrow> write_token ce (tag_name tt) tok))"

text \<open>\<open>while tokenizer.has_more_tokens(): tokenizer.advance(); ...\<close>\<close>

partial_function (option) analyze_loop :: "tokenizer \<Rightarrow> engine \<Rightarrow> (py_error + engine) option" where
  "analyze_loop tk ce =
     (if has_more_tokens tk then
        (case advance tk of
           None \<Rightarrow> None
         | Some (Inl e) \<Rightarrow> Some (Inl e)
         | Some (Inr tk') \<Rightarrow>
             (case emit_current tk' ce of
                Inl e \<Rightarrow> Some (Inl e)
              | Inr ce' \<Rightarrow> analyze_loop tk' ce'))
      else Some (Inr ce))"

declare analyze_loop.simps [code]

text \<open>\<open>analyze\<close>: construct the tokenizer (reading the file), then the engine, run the loop,
  close the engine.\<close>

definition analyze :: "(string \<Rightarrow> string option) \<Rightarrow> string \<Rightarrow> (py_error + engine) option" where
  "analyze fs jack_file =
     (case fs jack_file of
        None \<Rightarrow> Some (Inl File_not_found)
      | Some contents \<Rightarrow>
          (let tokenizer = tokenizer_init contents
           in case ce_init jack_file of
                Inl e \<Rightarrow> Some (Inl e)
              | Inr ce \<Rightarrow>
                  (case analyze_loop tokenizer ce of
                     None \<Rightarrow> None
                   | Some (Inl e) \<Rightarrow> Some (Inl e)
                   | Some (Inr ce') \<Rightarrow> Some (ce_close ce'))))"

text \<open>\<open>for jack_file in jack_files: self.analyze(jack_file)\<close>, the written engines collected.\<close>

fun analyze_all :: "(string \<Rightarrow> string option) \<Rightarrow> string list \<Rightarrow> (py_error + engine list) option" where
  "analyze_all fs [] = Some (Inr [])"
| "analyze_all fs (f # fl) =
     (case analyze fs f of
        None \<Rightarrow> None
      | Some (Inl e) \<Rightarrow> Some (Inl e)
      | Some (Inr ce) \<Rightarrow>
          (case analyze_all fs fl of
             None \<Rightarrow> None
           | Some (Inl e) \<Rightarrow> Some (Inl e)
           | Some (Inr ces) \<Rightarrow> Some (Inr (ce # ces))))"

text \<open>\<open>JackAnalyzer.__init__\<close>: iterating the \<open>None\<close> that \<open>parse_files\<close> returns for a
  path without \<open>.jack\<close> raises TypeError.\<close>

definition jack_analyzer :: "(string \<Rightarrow> string option) \<Rightarrow> string \<Rightarrow> (py_error + engine list) option" where
  "jack_analyzer fs file_path =
     (case parse_files file_path of
        None \<Rightarrow> Some (Inl Type_error)
      | Some jack_files \<Rightarrow> analyze_all fs jack_files)"

section \<open>The abstract token stream\<close>

text \<open>The current token as a (type, text) pair, if both are set.\<close>

definition current :: "tokenizer \<Rightarrow> (ttype \<times> string) list" where
  "current tk = (case (token_type tk, curr_token tk) of (Some k, Some v) \<Rightarrow> [(k, v)] | _ \<Rightarrow> [])"

partial_function (option) tokenize :: "tokenizer \<Rightarrow> (py_error + (ttype \<times> string) list) option" where
  "tokenize tk =
     (if has_more_tokens tk then
        (case advance tk of
           None \<Rightarrow> None
         | Some (Inl e) \<Rightarrow> Some (Inl e)
         | Some (Inr tk') \<Rightarrow>
             Option.bind (tokenize tk')
               (\<lambda>r. Some (case r of Inl e \<Rightarrow> Inl e | Inr ts \<Rightarrow> Inr (current tk' @ ts))))
      else Some (Inr []))"

declare tokenize.simps [code]

text \<open>One output line of \<open>write_token\<close> at indentation \<open>n\<close>.\<close>

definition render :: "int \<Rightarrow> ttype \<times> string \<Rightarrow> string" where
  "render n t =
     replicate (nat n) CHR '' '' @ ''<'' @ py_lower (tag_name (fst t)) @ ''> '' @ escape (snd t)
     @ '' </'' @ py_lower (tag_name (fst t)) @ ''>'' @ ''\<newline>''"

text \<open>A token stream whose every (type, text) pair is consistent in the sense of
  \<open>token_consistent\<close>.\<close>

definition stream_consistent :: "(ttype \<times> string) list \<Rightarrow> bool" where
  "stream_consistent ts =
     list_all (\<lambda>(k, v). token_consistent \<lparr>jack = [], curr_token = Some v, token_type = Some k\<rparr>) ts"

section \<open>Lemmas\<close>

lemma advance_Inr_current:
  "advance tk = Some (Inr tk') \<Longrightarrow> \<exists>k v. token_type tk' = Some k \<and> curr_token tk' = Some v"
  by (erule advance_Inr_cases) auto

lemma emit_current_Inr:
  assumes "token_type tk = Some k" "curr_token tk = Some v" "is_open ce" "indent ce = Some n"
  shows "emit_current tk ce = Inr (ce\<lparr>out := out ce @ render n (k, v)\<rparr>)"
  using assms by (simp add: emit_current_def write_token_def ce_write_def render_def)

lemma tokenize_None_here: "advance tk = None \<Longrightarrow> tokenize tk = None"
  by (subst tokenize.simps) (auto simp: has_more_tokens_def advance_def split: list.splits)

lemma tokenize_None_step: "advance tk = Some (Inr tk') \<Longrightarrow> tokenize tk' = None \<Longrightarrow> tokenize tk = None"
  by (subst tokenize.simps) (auto simp: has_more_tokens_def advance_def split: list.splits)

lemma current_consistent: "token_consistent tk \<Longrightarrow> stream_consistent (current tk)"
  by (auto simp: stream_consistent_def current_def token_consistent_def
      split: option.splits ttype.splits)

text \<open>Every token of a stream that \<open>tokenize\<close> returns from a well-formed deque is
  consistent: the step invariant of \<open>advance\<close>, carried along the loop.\<close>

lemma tokenize_stream_consistent:
  assumes "tokenize tk = Some r"
  shows "list_all fragment_ok (jack tk) \<longrightarrow> (\<forall>ts. r = Inr ts \<longrightarrow> stream_consistent ts)"
proof (rule tokenize.raw_induct [where P = "\<lambda>tk r. list_all fragment_ok (jack tk) \<longrightarrow>
          (\<forall>ts. r = Inr ts \<longrightarrow> stream_consistent ts)", OF _ assms])
  fix f tk r
  assume IH: "\<And>tk r. f tk = Some r \<Longrightarrow> list_all fragment_ok (jack tk) \<longrightarrow>
                 (\<forall>ts. r = Inr ts \<longrightarrow> stream_consistent ts)"
    and eq: "(if has_more_tokens tk then
               (case advance tk of
                  None \<Rightarrow> None
                | Some (Inl e) \<Rightarrow> Some (Inl e)
                | Some (Inr tk') \<Rightarrow>
                    Option.bind (f tk')
                      (\<lambda>r. Some (case r of Inl e \<Rightarrow> Inl e | Inr ts \<Rightarrow> Inr (current tk' @ ts))))
             else Some (Inr [])) = Some r"
  show "list_all fragment_ok (jack tk) \<longrightarrow> (\<forall>ts. r = Inr ts \<longrightarrow> stream_consistent ts)"
  proof (intro impI allI)
    fix ts assume wf: "list_all fragment_ok (jack tk)" and r: "r = Inr ts"
    show "stream_consistent ts"
    proof (cases "has_more_tokens tk")
      case False
      with eq r show ?thesis by (simp add: stream_consistent_def)
    next
      case True
      with eq r obtain tk' where adv: "advance tk = Some (Inr tk')"
        and b: "Option.bind (f tk') (\<lambda>r. Some (case r of Inl e \<Rightarrow> Inl e
                  | Inr ts \<Rightarrow> Inr (current tk' @ ts))) = Some (Inr ts)"
        by (auto split: option.splits sum.splits)
      then obtain y where fy: "f tk' = Some y"
        and y: "(case y of Inl e \<Rightarrow> Inl e | Inr ts \<Rightarrow> Inr (current tk' @ ts)) = Inr ts"
        by (auto simp: bind_eq_Some_conv)
      then obtain ts' where f: "f tk' = Some (Inr ts')" and ts: "ts = current tk' @ ts'"
        by (cases y) auto
      have "list_all fragment_ok (jack tk')" by (rule advance_fragments_ok [OF wf adv])
      with IH [OF f] have "stream_consistent ts'" by blast
      moreover have "token_consistent tk'" by (rule advance_token_consistent_step [OF wf adv])
      ultimately show ?thesis
        using ts current_consistent by (simp add: stream_consistent_def)
    qed
  qed
qed

text \<open>C15: the driver loop refines the abstract token stream: on an open engine with indent
  \<open>n\<close>, the loop returns, raises or runs forever exactly when \<open>tokenize\<close> does, and what it
  writes is the rendering of that stream, one line per token in order.\<close>

theorem analyze_loop_refines_tokenize:
  assumes "is_open ce" and "indent ce = Some n"
  shows "analyze_loop tk ce =
           map_option (map_sum id (\<lambda>ts. ce\<lparr>out := out ce @ concat (map (render n) ts)\<rparr>)) (tokenize tk)"
  using assms
proof (induction "qsize (jack tk)" arbitrary: tk ce rule: less_induct)
  case less
  show ?case
  proof (cases "has_more_tokens tk")
    case False
    then have "analyze_loop tk ce = Some (Inr ce)" by (subst analyze_loop.simps) simp
    moreover from False have "tokenize tk = Some (Inr [])" by (subst tokenize.simps) simp
    ultimately show ?thesis by simp
  next
    case more: True
    show ?thesis
    proof (cases "advance tk")
      case None
      with more show ?thesis by (subst analyze_loop.simps, subst tokenize.simps) simp
    next
      case (Some r)
      show ?thesis
      proof (cases r)
        case (Inl e)
        with Some more show ?thesis by (subst analyze_loop.simps, subst tokenize.simps) simp
      next
        case (Inr tk')
        with Some have adv: "advance tk = Some (Inr tk')" by simp
        from advance_Inr_current [OF adv] obtain k v
          where kv: "token_type tk' = Some k" "curr_token tk' = Some v" by blast
        let ?ce' = "ce\<lparr>out := out ce @ render n (k, v)\<rparr>"
        have emit: "emit_current tk' ce = Inr ?ce'" using emit_current_Inr [OF kv less.prems] .
        have IH: "analyze_loop tk' ?ce' =
            map_option (map_sum id (\<lambda>ts. ?ce'\<lparr>out := out ?ce' @ concat (map (render n) ts)\<rparr>)) (tokenize tk')"
          using less.hyps [OF advance_qsize_less [OF adv]] less.prems by simp
        have lhs: "analyze_loop tk ce = analyze_loop tk' ?ce'"
          by (subst analyze_loop.simps) (simp add: more adv emit)
        have cur: "current tk' = [(k, v)]" by (simp add: current_def kv)
        have rhs: "tokenize tk = Option.bind (tokenize tk')
               (\<lambda>r. Some (case r of Inl e \<Rightarrow> Inl e | Inr ts \<Rightarrow> Inr ([(k, v)] @ ts)))"
          by (subst tokenize.simps) (simp only: more adv cur if_True option.case sum.case)
        show ?thesis
        proof (cases "tokenize tk'")
          case None
          then show ?thesis by (simp add: lhs rhs IH)
        next
          case (Some x)
          then show ?thesis by (cases x) (simp_all add: lhs rhs IH)
        qed
      qed
    qed
  qed
qed

text \<open>C16: on a well-formed deque in which no fragment ends with a digit, the token loop
  terminates: no remainder it creates is a digits-only fragment.\<close>

theorem tokenize_returns:
  assumes "list_all fragment_ok (jack tk)" and "list_all (\<lambda>f. \<not> is_digit (last f)) (jack tk)"
  shows "\<exists>r. tokenize tk = Some r"
  using assms
proof (induction "qsize (jack tk)" arbitrary: tk rule: less_induct)
  case less
  show ?case
  proof (cases "has_more_tokens tk")
    case False
    then show ?thesis by (subst tokenize.simps) simp
  next
    case more: True
    have "advance tk \<noteq> None"
    proof
      assume "advance tk = None"
      from advance_None_digits [OF less.prems(1) this] obtain t q
        where "jack tk = t # q" and "list_all is_digit t" by blast
      moreover from this less.prems have "t \<noteq> []" "\<not> is_digit (last t)"
        by (auto simp: fragment_ok_def)
      ultimately show False by (auto simp: list_all_iff)
    qed
    then obtain r where adv: "advance tk = Some r" by blast
    show ?thesis
    proof (cases r)
      case (Inl e)
      with adv more show ?thesis by (subst tokenize.simps) simp
    next
      case (Inr tk')
      with adv have adv': "advance tk = Some (Inr tk')" by simp
      have "list_all fragment_ok (jack tk')"
        using advance_fragments_ok [OF less.prems(1) adv'] .
      moreover have "list_all (\<lambda>f. \<not> is_digit (last f)) (jack tk')"
        using advance_suffix_closed [OF suffix_closed_last_not_digit less.prems(2) adv'] .
      ultimately obtain r' where "tokenize tk' = Some r'"
        using less.hyps [OF advance_qsize_less [OF adv']] by blast
      with adv' more show ?thesis by (subst tokenize.simps) simp
    qed
  qed
qed

text \<open>C18: a path without \<open>.jack\<close> is not skipped softly: \<open>parse_files\<close> returns
  \<open>None\<close> and iterating it raises TypeError.\<close>

theorem jack_analyzer_no_jack:
  assumes "\<not> py_contains ''.jack'' file_path"
  shows "jack_analyzer fs file_path = Some (Inl Type_error)"
  using assms by (simp add: jack_analyzer_def parse_files_def)

lemma py_contains_iff: "py_contains pat s \<longleftrightarrow> (\<exists>a b. s = a @ pat @ b)"
proof
  assume "py_contains pat s"
  then obtain i where "take (length pat) (drop i s) = pat"
    by (auto simp: py_contains_def list_ex_iff)
  then have "s = take i s @ pat @ drop (length pat) (drop i s)"
    by (metis append_take_drop_id)
  then show "\<exists>a b. s = a @ pat @ b" by blast
next
  assume "\<exists>a b. s = a @ pat @ b"
  then obtain a b where s: "s = a @ pat @ b" by blast
  have "take (length pat) (drop (length a) s) = pat" by (simp add: s)
  moreover have "length a \<in> set [0..<Suc (length s)]" by (simp add: s)
  ultimately show "py_contains pat s" unfolding py_contains_def list_ex_iff by blast
qed

text \<open>C19: the file check is a substring test, not an extension test: a path is accepted, as itself, exactly when .jack occurs anywhere in it (Main.jack.bak and a.jackal are accepted).\<close>

theorem parse_files_substring:
  "parse_files s = (if \<exists>a b. s = a @ ''.jack'' @ b then Some [s] else None)"
  by (simp add: parse_files_def py_contains_iff)

section \<open>Witnesses\<close>

theorem analyze_loop_refines_tokenize_witness:
  "is_open \<lparr>out_name = ''MainT.xml'', out = [], is_open = True, indent = Some 2\<rparr> \<and>
   analyze_loop \<lparr>jack = [''x;''], curr_token = None, token_type = None\<rparr>
       \<lparr>out_name = ''MainT.xml'', out = [], is_open = True, indent = Some 2\<rparr>
   = map_option (map_sum id (\<lambda>ts. \<lparr>out_name = ''MainT.xml'', out = concat (map (render 2) ts),
                                    is_open = True, indent = Some 2\<rparr>))
       (tokenize \<lparr>jack = [''x;''], curr_token = None, token_type = None\<rparr>)"
  using analyze_loop_refines_tokenize [of "\<lparr>out_name = ''MainT.xml'', out = [], is_open = True, indent = Some 2\<rparr>"
      2 "\<lparr>jack = [''x;''], curr_token = None, token_type = None\<rparr>"]
  by simp

theorem tokenize_returns_witness:
  "list_all fragment_ok [''x;''] \<and> list_all (\<lambda>f. \<not> is_digit (last f)) [''x;''] \<and>
   (\<exists>r. tokenize \<lparr>jack = [''x;''], curr_token = None, token_type = None\<rparr> = Some r)"
proof -
  have wf: "list_all fragment_ok (jack \<lparr>jack = [''x;''], curr_token = None, token_type = None\<rparr>)"
    by (simp add: fragment_ok_def py_isspace_def)
  have ends: "list_all (\<lambda>f. \<not> is_digit (last f)) (jack \<lparr>jack = [''x;''], curr_token = None, token_type = None\<rparr>)"
    by (simp add: is_digit_def)
  from wf ends tokenize_returns [OF wf ends] show ?thesis by simp
qed

theorem jack_analyzer_no_jack_witness:
  "\<not> py_contains ''.jack'' ''Main.txt'' \<and> jack_analyzer Map.empty ''Main.txt'' = Some (Inl Type_error)"
proof -
  have n: "\<not> py_contains ''.jack'' ''Main.txt''" by code_simp
  from n jack_analyzer_no_jack [OF n] show ?thesis by simp
qed

end
