(* ===== verification/Spec2Isabelle.thy ===== *)
theory Spec2Isabelle
  imports Analyzer
begin

text \<open>
  \<^bold>\<open>A verification model of the Jack syntax analyser.\<close>
  The repository's one source file, \<open>src/JaskaranSingh-Syntax_Analyzer.py\<close>, is the
  tokenizer stage of a Jack compiler: \<open>JackAnalyzer\<close> (the driver) selects a \<open>.jack\<close>
  file, \<open>JackTokenizer\<close> loads it into a deque of whitespace-free fragments and cuts tokens
  off the front of that deque, and \<open>CompilationEngine\<close> writes each token as a tagged line
  of an \<open>...T.xml\<close> file.  The components interact only through calls: the driver's
  \<open>while\<close> loop calls \<open>advance\<close> and then \<open>write_token\<close> with the tag its
  \<open>if/elif\<close> chain selects.

  \<^bold>\<open>Theories and what they model.\<close>
  \<^item> \<open>Jack_Prelude\<close>: the Python exceptions as the datatype \<open>py_error\<close>, exception
    propagation between statements (\<open>then_ok\<close>), the builtins the code calls on strings
    (\<open>str.strip\<close>, \<open>str.split()\<close>, \<open>str.split(sep)\<close>, \<open>str.replace\<close>, \<open>str.lower\<close>), the
    \<open>enumerate\<close>-and-\<open>break\<close> search (\<open>first_index\<close>), the guarded \<open>appendleft\<close>
    (\<open>push_nonempty\<close>), and the deque measure and fragment shape used by the proofs.
  \<^item> \<open>Py_Int\<close>: \<open>int(s)\<close> on strings (sign, digits, single underscores between
    digits, surrounding whitespace, and CPython's limit of \<open>int_max_str_digits\<close> = 4300
    digits, the default of \<open>sys.get_int_max_str_digits()\<close> since 3.11),
    \<open>JackTokenizer.is_int\<close> and the value \<open>int_val\<close> reads; beside them the decimal
    printer \<open>string_of_int\<close> (Python's \<open>str\<close>) as the reference it should invert.
  \<^item> \<open>Loader\<close>: \<open>JackTokenizer.load_file\<close> from the file's text, step by step as the
    source does it (line split, strip, \<open>//\<close> cut, the \<open>in_comment\<close> loop, word split).
  \<^item> \<open>Tokenizer\<close>: the record \<open>tokenizer\<close> (\<open>jack\<close>, \<open>curr_token\<close>,
    \<open>token_type\<close>), the keyword and symbol tables, and \<open>advance\<close> with one scanner per
    branch: \<open>scan_symbol\<close>, \<open>scan_string\<close> (the \<open>while True\<close> loop over fragments,
    structural on the deque), \<open>int_scan\<close> (the \<open>while is_int(...)\<close> loop, a
    \<open>partial_function (option)\<close> because it need not stop), \<open>scan_word\<close>; the accessors
    \<open>key_word\<close> and \<open>int_val\<close> with their exceptions.
  \<^item> \<open>Emitter\<close>: the record \<open>engine\<close> (output name and text, open flag, and
    \<open>indent\<close> as an attribute that may not exist), \<open>write\<close>, \<open>write_token\<close> with its
    escaping, \<open>close\<close>, \<open>updent\<close>, \<open>downdent\<close>, and the constructor with its \<open>with\<close> block.
  \<^item> \<open>Analyzer\<close>: \<open>parse_files\<close>, the loop of \<open>analyze\<close> (\<open>analyze_loop\<close>, a
    \<open>partial_function (option)\<close> since \<open>advance\<close> may not return), \<open>analyze\<close>, and
    \<open>JackAnalyzer.__init__\<close> over a file system given as a map from paths to contents;
    beside them the abstract token stream \<open>tokenize\<close> and the line \<open>render\<close> writes.

  \<^bold>\<open>What is proved.\<close>
  The tokenizer: on a well-formed deque (\<open>fragment_ok\<close>: non-empty, whitespace-free
  fragments, which the loader produces and every step keeps) \<open>advance\<close> fails to return
  exactly on a front fragment of at most 4300 digits only (C1); a longer digit run is cut
  into 4300-digit tokens by \<open>int()\<close>'s limit (C2); the functional behaviour of the other
  branches (C3 to C7), including longest match, keyword/identifier classification and the
  string scan across fragments and its error; the kind/payload invariant of every token
  (C8).  \<open>int()\<close> inverts \<open>str()\<close> exactly up to the digit limit (C9).  Every successful
  step lowers the number of queued characters (\<open>advance_qsize_less\<close>), the measure behind
  the termination results.  The emitter: escaping is reversible and leaves no raw angle
  bracket (C10, C11), the line \<open>write_token\<close> writes (C12), and two defects (C13, C14).
  The driver: the loop writes exactly the rendering of the abstract token stream (C15, a
  refinement that holds whether or not the loop returns), it terminates when no fragment
  ends in a digit (C16), every token of the stream produced from any file is consistent
  (C17, in this theory: loader, tokenizer and loop together), and the file selection fails
  or over-accepts as the code is written (C18, C19).  The loader: its output is a
  well-formed deque (C20), it is the plain line/strip/cut/split pipeline when no line opens
  a block comment (C21), a line opening and closing a comment is dropped whole (C22), and a
  line is cut at its first \<open>//\<close> even inside a string (C23).  A realistic statement,
  \<open>let x = 1 ;\<close>, makes the tokenizer run forever (C24, in this theory).

  \<^bold>\<open>Fuel and partiality.\<close>  No fuel is used: the two loops that may run forever
  (\<open>int_scan\<close>, and through it the driver loop) are \<open>partial_function (option)\<close>, and
  their termination is characterised by theorems (C1, C18) rather than assumed.  The
  string loop and all other recursion are structural.

  \<^bold>\<open>Not modelled.\<close>  The console message of \<open>parse_files\<close>, the reading and writing of
  real files beyond their contents, the \<open>__main__\<close> block (a hard-coded file name), a
  digit limit other than the default (\<open>sys.set_int_max_str_digits\<close> or the
  \<open>PYTHONINTMAXSTRDIGITS\<close> variable; interpreters older than the versions above have no
  limit, and there C1 holds for all digits-only fragments and C2 without the cut), and
  characters beyond Latin-1 (Isabelle's \<open>char\<close>; Python would also accept non-ASCII decimal
  digits in \<open>int()\<close>).  \<open>symbol\<close>, \<open>identifier\<close> and \<open>string_val\<close> only return
  \<open>curr_token\<close> and have no definitions of their own.  The missing import of \<open>deque\<close>
  is read as \<open>collections.deque\<close>; as written, \<open>load_file\<close> raises NameError, so
  \<open>analyze\<close> fails there before it builds the \<open>CompilationEngine\<close>; the model's
  \<open>analyze\<close> gets past that point and so shows the next failure, the constructor's (C13).
\<close>

text \<open>C17: whatever the file contains, every token of the stream the tokenizer returns for it is consistent with its kind: the loader's output is a well-formed deque, and each step of the token loop keeps it well-formed and produces a consistent token.\<close>

theorem tokenize_file_consistent:
  assumes "tokenize (tokenizer_init contents) = Some (Inr ts)"
  shows "stream_consistent ts"
proof -
  have "\<forall>l. list_all fragment_ok (py_split l)" by blast
  then have "list_all fragment_ok (jack (tokenizer_init contents))"
    by (auto simp: tokenizer_init_def load_file_def Let_def list_all_iff)
  with tokenize_stream_consistent [OF assms] show ?thesis by blast
qed

text \<open>C24: written with a space before the semicolon, the same statement makes the tokenizer loop forever: the fragment 1 is all digits.\<close>

theorem end_to_end_spaced_diverges: "tokenize (tokenizer_init ''let x = 1 ;'') = None"
proof -
  let ?st = "\<lambda>q. \<lparr>jack = q, curr_token = None, token_type = None\<rparr> :: tokenizer"
  have init: "tokenizer_init ''let x = 1 ;'' = ?st [''let'', ''x'', ''='', ''1'', '';'']"
    by code_simp
  have s1: "advance (?st [''let'', ''x'', ''='', ''1'', '';''])
      = Some (Inr \<lparr>jack = [''x'', ''='', ''1'', '';''], curr_token = Some ''let'', token_type = Some KEYWORD\<rparr>)"
    by code_simp
  have s2: "advance \<lparr>jack = [''x'', ''='', ''1'', '';''], curr_token = Some ''let'', token_type = Some KEYWORD\<rparr>
      = Some (Inr \<lparr>jack = [''='', ''1'', '';''], curr_token = Some ''x'', token_type = Some IDENTIFIER\<rparr>)"
    by code_simp
  have s3: "advance \<lparr>jack = [''='', ''1'', '';''], curr_token = Some ''x'', token_type = Some IDENTIFIER\<rparr>
      = Some (Inr \<lparr>jack = [''1'', '';''], curr_token = Some ''='', token_type = Some SYMBOL\<rparr>)"
    by code_simp
  have "int_scan ''1'' 0 = None" by (rule int_scan_digits_only) (simp_all add: is_digit_def int_max_str_digits_def)
  then have s4: "advance \<lparr>jack = [''1'', '';''], curr_token = Some ''='', token_type = Some SYMBOL\<rparr> = None"
    by (simp add: advance_def is_digit_def)
  show ?thesis
    unfolding init
    by (rule tokenize_None_step [OF s1], rule tokenize_None_step [OF s2],
        rule tokenize_None_step [OF s3], rule tokenize_None_here [OF s4])
qed

theorem tokenize_file_consistent_witness:
  "tokenize (tokenizer_init ''let x = 1;'') =
     Some (Inr [(KEYWORD, ''let''), (IDENTIFIER, ''x''), (SYMBOL, ''=''), (INT_CONSTANT, ''1''), (SYMBOL, '';'')]) \<and>
   stream_consistent [(KEYWORD, ''let''), (IDENTIFIER, ''x''), (SYMBOL, ''=''), (INT_CONSTANT, ''1''), (SYMBOL, '';'')]"
proof -
  have h: "tokenize (tokenizer_init ''let x = 1;'') =
     Some (Inr [(KEYWORD, ''let''), (IDENTIFIER, ''x''), (SYMBOL, ''=''), (INT_CONSTANT, ''1''), (SYMBOL, '';'')])"
    by code_simp
  from h tokenize_file_consistent [OF h] show ?thesis by blast
qed

end
